theory Spec2Isabelle
  imports Main "HOL-Library.AList" "HOL-Library.Multiset" "HOL-Library.List_Lexorder"
    "HOL-Library.Char_ord"
begin

section \<open>Time values and time windows\<close>

text \<open>
  A \<^verbatim>\<open>datetime.datetime\<close> is represented by its number of microseconds (an integer),
  a \<^verbatim>\<open>datetime.timedelta\<close> by a number of microseconds as well; comparison, addition and
  subtraction are those of the integers.
\<close>

type_synonym datetime = int
type_synonym timedelta = int

definition timedelta_days :: "int \<Rightarrow> timedelta" where
  "timedelta_days d = d * 86400000000"

definition timedelta_hours :: "int \<Rightarrow> timedelta" where
  "timedelta_hours h = h * 3600000000"

text \<open>
  \<^verbatim>\<open>functools.partial(ge, t)\<close>, \<^verbatim>\<open>functools.partial(le, t)\<close> and
  \<^verbatim>\<open>functools.partial(lt, t)\<close> (with flipped arguments): a comparison of a column
  value with a fixed bound.
\<close>

datatype time_cmp = Ge datetime | Le datetime | Lt datetime

fun apply_cmp :: "time_cmp \<Rightarrow> datetime \<Rightarrow> bool" where
  "apply_cmp (Ge b) t = (t \<ge> b)"
| "apply_cmp (Le b) t = (t \<le> b)"
| "apply_cmp (Lt b) t = (t < b)"

fun cmp_bound :: "time_cmp \<Rightarrow> datetime" where
  "cmp_bound (Ge b) = b"
| "cmp_bound (Le b) = b"
| "cmp_bound (Lt b) = b"

type_synonym time_window = "time_cmp \<times> time_cmp"

definition window_lower :: "time_window \<Rightarrow> datetime" where
  "window_lower w = cmp_bound (fst w)"

definition window_upper :: "time_window \<Rightarrow> datetime" where
  "window_upper w = cmp_bound (snd w)"

definition in_window :: "time_window \<Rightarrow> datetime \<Rightarrow> bool" where
  "in_window w t = (apply_cmp (fst w) t \<and> apply_cmp (snd w) t)"

section \<open>The window generator \<^verbatim>\<open>_time_comparisons_per_step\<close>\<close>

text \<open>
  The generator is a state machine: before its first \<^verbatim>\<open>next()\<close> it is at the start
  of its body; afterwards it is suspended at one of its two \<^verbatim>\<open>yield\<close>s, both of which
  resume into the \<^verbatim>\<open>while\<close> loop with the local variables \<^verbatim>\<open>time_lower\<close> and
  \<^verbatim>\<open>time_upper\<close> (the latter possibly \<^verbatim>\<open>None\<close>).
\<close>

type_synonym time_constraints = "datetime \<times> datetime option \<times> datetime option"

datatype steps_state =
  Steps_start
  | Steps_loop datetime "datetime option"

text \<open>One test of the \<^verbatim>\<open>while\<close> condition and, if it holds, one round of the loop.\<close>

definition steps_loop_next ::
  "timedelta \<Rightarrow> datetime \<Rightarrow> datetime \<Rightarrow> datetime option \<Rightarrow> (time_window \<times> steps_state) option"
where
  "steps_loop_next step_delta time_min time_lower time_upper =
     (if time_lower > time_min \<or> time_upper = None
      then Some ((Ge (max time_min (time_lower - step_delta)), Lt time_lower),
                 Steps_loop (max time_min (time_lower - step_delta)) (Some time_lower))
      else None)"

text \<open>
  One \<^verbatim>\<open>next()\<close> of the generator: the window yielded and the generator's next state,
  or \<open>None\<close> when the generator is exhausted. \<open>now\<close> is the value of \<^verbatim>\<open>utcnow()\<close>.
\<close>

fun steps_next ::
  "int \<Rightarrow> datetime \<Rightarrow> time_constraints \<Rightarrow> steps_state \<Rightarrow> (time_window \<times> steps_state) option"
where
  "steps_next day_step now (time_min, time_max, time_until) Steps_start =
     (case time_until of
        None \<Rightarrow>
          (let time_upper = (case time_max of Some m \<Rightarrow> m | None \<Rightarrow> now + timedelta_hours 1);
               time_lower = max time_min (time_upper - timedelta_days day_step)
           in Some ((Ge time_lower, Le time_upper), Steps_loop time_lower (Some time_upper)))
      | Some u \<Rightarrow> steps_loop_next (timedelta_days day_step) time_min u None)"
| "steps_next day_step now (time_min, time_max, time_until) (Steps_loop time_lower time_upper) =
     steps_loop_next (timedelta_days day_step) time_min time_lower time_upper"

text \<open>
  The whole sequence of windows the generator yields, in the order of the \<^verbatim>\<open>yield\<close>s.
  The generator need not stop (a \<^verbatim>\<open>day_step\<close> that is not positive makes the
  \<^verbatim>\<open>while\<close> loop endless), so the sequence is \<open>None\<close> when it does not.
\<close>

partial_function (option) steps_from ::
  "int \<Rightarrow> datetime \<Rightarrow> time_constraints \<Rightarrow> steps_state \<Rightarrow> time_window list \<Rightarrow> time_window list option"
where
  "steps_from day_step now tc st acc =
     (case steps_next day_step now tc st of
        None \<Rightarrow> Some acc
      | Some (w, st') \<Rightarrow> steps_from day_step now tc st' (acc @ [w]))"

declare steps_from.simps [code]

definition time_comparisons_per_step ::
  "int \<Rightarrow> datetime \<Rightarrow> time_constraints \<Rightarrow> time_window list option"
where
  "time_comparisons_per_step day_step now tc = steps_from day_step now tc Steps_start []"

section \<open>Exceptions and log records\<close>

text \<open>Values of JSON-like columns and of dictionaries taken from them.\<close>

datatype pyval =
  PNone
  | PStr string
  | PInt int
  | PBool bool
  | PList "pyval list"
  | PDict "(string \<times> pyval) list"

text \<open>
  What the driver's \<^verbatim>\<open>DBAPIError\<close> carries: the failing statement and its parameters
  (their printed forms), and the text \<^verbatim>\<open>make_exc_ascii_str\<close> gives for it.
\<close>

record dbapi_error =
  exc_ascii_str :: string
  statement :: string
  params :: string

datatype exc =
  AssertionError
  | DBAPIError dbapi_error
  | EventDatabaseError string
  | NoContextToExitFrom
  | KeyError string
  | IndexError
  | TypeError
  | AttributeError
  | OtherError string

datatype log_level = WARNING | ERROR

text \<open>
  A call of \<^verbatim>\<open>LOGGER.warning\<close> or \<^verbatim>\<open>LOGGER.error\<close>: the level and the arguments
  given after the message template. The tag of an event (made for logging from its
  \<^verbatim>\<open>id\<close>, \<^verbatim>\<open>time\<close> and \<^verbatim>\<open>modified\<close>) is kept as these three parts.
\<close>

datatype log_arg =
  Arg_str string
  | Arg_opt_str "string option"
  | Arg_val pyval
  | Arg_event_tag string int "pyval option"

type_synonym log_record = "log_level \<times> log_arg list"

section \<open>The base query processor: translation of driver errors\<close>

definition DB_API_ERROR_MESSAGE_MAX_LENGTH :: nat where
  "DB_API_ERROR_MESSAGE_MAX_LENGTH = 200"

text \<open>\<^verbatim>\<open>s.replace('\n', ' ')\<close>\<close>

definition replace_newlines :: "string \<Rightarrow> string" where
  "replace_newlines s = map (\<lambda>c. if c = CHR 0x0A then CHR '' '' else c) s"

text \<open>
  \<^verbatim>\<open>_format_db_api_error_summary\<close>. The helper \<^verbatim>\<open>make_exc_ascii_str\<close> is defined
  outside the files at hand; its result for the error is the field \<open>exc_ascii_str\<close>.
\<close>

definition format_db_api_error_summary :: "dbapi_error \<Rightarrow> string" where
  "format_db_api_error_summary e =
     ''DB API error - ''
       @ replace_newlines (take DB_API_ERROR_MESSAGE_MAX_LENGTH (exc_ascii_str e))
       @ ''...''"

text \<open>
  The context manager \<^verbatim>\<open>handling_db_api_error\<close>, applied to the outcome of the body of
  its \<^verbatim>\<open>with\<close> block: the log records written and the outcome of the whole block.
\<close>

fun handling_db_api_error :: "exc + 'a \<Rightarrow> log_record list \<times> (exc + 'a)" where
  "handling_db_api_error (Inl (DBAPIError e)) =
     ([(ERROR, [Arg_str (format_db_api_error_summary e), Arg_str (statement e),
                Arg_str (params e)])],
      Inl (EventDatabaseError (format_db_api_error_summary e)))"
| "handling_db_api_error r = ([], r)"

section \<open>The transactional scope \<^verbatim>\<open>transact\<close>\<close>

text \<open>
  The calls made on the session \<^verbatim>\<open>_DBSession\<close>, and for each of its methods the
  exception it raises when called (if it raises).
\<close>

datatype session_call = Flush | Commit | Rollback | Remove

record session_behaviour =
  flush_raises :: "exc option"
  commit_raises :: "exc option"
  rollback_raises :: "exc option"
  remove_raises :: "exc option"

text \<open>
  \<^verbatim>\<open>_transaction_finalizer\<close>: the session calls made, and either the exception that
  leaves the finalizer or its return value (the caught exception of \<^verbatim>\<open>flush()\<close>, or
  \<^verbatim>\<open>None\<close>).
\<close>

definition transaction_finalizer ::
  "session_behaviour \<Rightarrow> exc option \<Rightarrow> session_call list \<times> (exc + exc option)"
where
  "transaction_finalizer sb exc_type =
     (case exc_type of
        None \<Rightarrow>
          (case flush_raises sb of
             Some flush_exc \<Rightarrow>
               (case rollback_raises sb of
                  Some e \<Rightarrow> ([Flush, Rollback], Inl e)
                | None \<Rightarrow> ([Flush, Rollback], Inr (Some flush_exc)))
           | None \<Rightarrow>
               (case commit_raises sb of
                  Some e \<Rightarrow> ([Flush, Commit], Inl e)
                | None \<Rightarrow> ([Flush, Commit], Inr None)))
      | Some _ \<Rightarrow>
          (case rollback_raises sb of
             Some e \<Rightarrow> ([Rollback], Inl e)
           | None \<Rightarrow> ([Rollback], Inr None)))"

text \<open>\<^verbatim>\<open>_never_called\<close>\<close>

definition never_called :: "session_call list \<times> (exc + exc option)" where
  "never_called = ([], Inl AssertionError)"

text \<open>
  Modelled from the spec: \<^verbatim>\<open>ThreadLocalContextDeposit.on_exit\<close> (module
  \<^verbatim>\<open>n6lib.context_helpers\<close>). The deposit counts the contexts entered; leaving with none
  entered is the "nothing to exit" error; leaving the outermost context runs the outermost
  finalizer, leaving an inner one the other finalizer. The result is the new count with what
  the finalizer did.
\<close>

definition on_exit ::
  "nat \<Rightarrow> (session_call list \<times> (exc + exc option)) \<Rightarrow> (session_call list \<times> (exc + exc option))
     \<Rightarrow> nat \<times> session_call list \<times> (exc + exc option)"
where
  "on_exit context_count outermost_context_finalizer context_finalizer =
     (if context_count = 0 then (0, [], Inl NoContextToExitFrom)
      else if context_count - 1 = 0
        then (context_count - 1, outermost_context_finalizer)
        else (context_count - 1, context_finalizer))"

text \<open>
  \<^verbatim>\<open>__exit__\<close>: from the number of contexts entered and the exception active in the
  \<^verbatim>\<open>with\<close> block (if any), the new number of contexts, the session calls made, and
  either the exception \<^verbatim>\<open>__exit__\<close> raises or its return (always \<^verbatim>\<open>None\<close>).
\<close>

definition transact_exit ::
  "session_behaviour \<Rightarrow> nat \<Rightarrow> exc option \<Rightarrow> nat \<times> session_call list \<times> (exc + unit)"
where
  "transact_exit sb context_count exc_type =
     (case on_exit context_count (transaction_finalizer sb exc_type) never_called of
        (n, calls, Inl NoContextToExitFrom) \<Rightarrow>
          (if n > 0 then (n, calls, Inl AssertionError)
           else (n, calls, Inl NoContextToExitFrom))
      | (n, calls, Inl e) \<Rightarrow>
          (case remove_raises sb of
             Some e' \<Rightarrow> (n, calls @ [Remove], Inl e')
           | None \<Rightarrow> (n, calls @ [Remove], Inl e))
      | (n, calls, Inr flush_exc_info) \<Rightarrow>
          (case flush_exc_info of
             Some flush_exc \<Rightarrow> (n, calls, Inl flush_exc)
           | None \<Rightarrow> (n, calls, Inr ())))"

text \<open>
  What leaves a \<^verbatim>\<open>with\<close> statement: an exception raised by \<^verbatim>\<open>__exit__\<close>, or else the
  exception that was active in the block (\<^verbatim>\<open>__exit__\<close> returned a false value), or
  nothing.
\<close>

definition with_outcome :: "exc option \<Rightarrow> exc + unit \<Rightarrow> exc option" where
  "with_outcome exc_type exit_result =
     (case exit_result of Inl e \<Rightarrow> Some e | Inr _ \<Rightarrow> exc_type)"

section \<open>The Event DB: tables, queries and their evaluation\<close>

text \<open>
  A row of the table of \<^verbatim>\<open>n6NormalizedData\<close> (the columns the functions at hand read;
  \<open>ev_other\<close> stands for all the others) and a row of the table of
  \<^verbatim>\<open>n6ClientToEvent\<close>.
\<close>

record event =
  ev_id :: string
  ev_time :: datetime
  ev_category :: string
  ev_url :: "string option"
  ev_custom :: "(string \<times> pyval) list option"
  ev_other :: "(string \<times> pyval) list"

record client_to_event =
  c2e_id :: string
  c2e_time :: datetime
  c2e_client :: string

text \<open>
  The database: the two tables, and for the \<open>n\<close>-th query executed on it the driver error
  it fails with (if it fails).
\<close>

record event_db =
  db_events :: "event list"
  db_client_to_events :: "client_to_event list"
  db_fault :: "nat \<Rightarrow> dbapi_error option"

text \<open>A row of the join: an event with the matching row of the client table, or with none.\<close>

type_synonym joined_row = "event \<times> client_to_event option"

text \<open>
  An SQLAlchemy \<^verbatim>\<open>Query\<close> on these two tables, as far as the functions at hand build
  it: the conditions given to \<^verbatim>\<open>filter()\<close> (all of which must hold), the \<^verbatim>\<open>ON\<close>
  condition given to \<^verbatim>\<open>outerjoin()\<close>, whether \<^verbatim>\<open>order_by(time.desc())\<close> and
  \<^verbatim>\<open>group_by(category)\<close> were applied, and the arguments of \<^verbatim>\<open>limit()\<close> and
  \<^verbatim>\<open>offset()\<close>.
\<close>

record query =
  q_where :: "(joined_row \<Rightarrow> bool) list"
  q_join_on :: "(event \<Rightarrow> client_to_event \<Rightarrow> bool) option"
  q_order_by_time_desc :: bool
  q_group_by_category :: bool
  q_limit :: "nat option"
  q_offset :: nat

definition session_query :: query where
  "session_query = \<lparr>q_where = [], q_join_on = None, q_order_by_time_desc = False,
                     q_group_by_category = False, q_limit = None, q_offset = 0\<rparr>"

definition query_filter :: "query \<Rightarrow> (joined_row \<Rightarrow> bool) \<Rightarrow> query" where
  "query_filter q cond = q\<lparr>q_where := q_where q @ [cond]\<rparr>"

definition query_outerjoin :: "query \<Rightarrow> (event \<Rightarrow> client_to_event \<Rightarrow> bool) \<Rightarrow> query" where
  "query_outerjoin q on_cond = q\<lparr>q_join_on := Some on_cond\<rparr>"

definition query_order_by_time_desc :: "query \<Rightarrow> query" where
  "query_order_by_time_desc q = q\<lparr>q_order_by_time_desc := True\<rparr>"

definition query_group_by_category :: "query \<Rightarrow> query" where
  "query_group_by_category q = q\<lparr>q_group_by_category := True\<rparr>"

definition query_with_limit :: "query \<Rightarrow> nat \<Rightarrow> query" where
  "query_with_limit q n = q\<lparr>q_limit := Some n\<rparr>"

definition query_with_offset :: "query \<Rightarrow> nat \<Rightarrow> query" where
  "query_with_offset q n = q\<lparr>q_offset := n\<rparr>"

text \<open>
  \<^verbatim>\<open>LEFT OUTER JOIN\<close>: every event with each of the client rows that satisfy the
  \<^verbatim>\<open>ON\<close> condition, or once with no client row when none does. Without a join the two
  tables are combined freely.
\<close>

definition left_outer_join ::
  "(event \<Rightarrow> client_to_event \<Rightarrow> bool) \<Rightarrow> event list \<Rightarrow> client_to_event list \<Rightarrow> joined_row list"
where
  "left_outer_join on_cond es cs =
     concat (map (\<lambda>e. case filter (on_cond e) cs of
                         [] \<Rightarrow> [(e, None)]
                       | ms \<Rightarrow> map (\<lambda>c. (e, Some c)) ms) es)"

definition joined_rows :: "event_db \<Rightarrow> query \<Rightarrow> joined_row list" where
  "joined_rows db q =
     (case q_join_on q of
        Some on_cond \<Rightarrow> left_outer_join on_cond (db_events db) (db_client_to_events db)
      | None \<Rightarrow> concat (map (\<lambda>e. map (\<lambda>c. (e, Some c)) (db_client_to_events db)) (db_events db)))"

text \<open>
  The rows a query selects: the join, the \<^verbatim>\<open>WHERE\<close> conditions, the order (by
  \<^verbatim>\<open>time\<close>, descending), then \<^verbatim>\<open>OFFSET\<close> and \<^verbatim>\<open>LIMIT\<close>.
\<close>

definition selected_rows :: "event_db \<Rightarrow> query \<Rightarrow> joined_row list" where
  "selected_rows db q =
     (let rows = filter (\<lambda>r. list_all (\<lambda>cond. cond r) (q_where q)) (joined_rows db q);
          ordered = (if q_order_by_time_desc q
                     then sort_key (\<lambda>r. - ev_time (fst r)) rows else rows);
          skipped = drop (q_offset q) ordered
      in case q_limit q of None \<Rightarrow> skipped | Some n \<Rightarrow> take n skipped)"

text \<open>
  A fetched row (\<^verbatim>\<open>queried_column_mapping_attrs\<close>): the columns of the event and the
  column \<^verbatim>\<open>client\<close> of the client table (\<^verbatim>\<open>NULL\<close> when there is no client row).
\<close>

record fetched_row =
  row_event :: event
  row_client :: "string option"

definition fetched_row_of :: "joined_row \<Rightarrow> fetched_row" where
  "fetched_row_of r = \<lparr>row_event = fst r, row_client = map_option c2e_client (snd r)\<rparr>"

text \<open>Executing a row query as the \<open>n\<close>-th query on the database.\<close>

definition execute_rows :: "event_db \<Rightarrow> nat \<Rightarrow> query \<Rightarrow> exc + fetched_row list" where
  "execute_rows db n q =
     (case db_fault db n of
        Some e \<Rightarrow> Inl (DBAPIError e)
      | None \<Rightarrow> Inr (map fetched_row_of (selected_rows db q)))"

text \<open>
  Executing \<^verbatim>\<open>query(category, count(distinct(id)))\<close> grouped by category: one pair
  for each category among the selected rows, with the number of different event ids.
\<close>

definition counted_rows :: "event_db \<Rightarrow> query \<Rightarrow> (string \<times> int) list" where
  "counted_rows db q =
     (let rows = selected_rows db q
      in map (\<lambda>c. (c, int (length (remdups (map (\<lambda>r. ev_id (fst r))
                                              (filter (\<lambda>r. ev_category (fst r) = c) rows))))))
             (remdups (map (\<lambda>r. ev_category (fst r)) rows)))"

definition execute_counts :: "event_db \<Rightarrow> nat \<Rightarrow> query \<Rightarrow> exc + (string \<times> int) list" where
  "execute_counts db n q =
     (case db_fault db n of
        Some e \<Rightarrow> Inl (DBAPIError e)
      | None \<Rightarrow> Inr (counted_rows db q))"

section \<open>The base query processor: the two filters\<close>

record base_query_processor =
  access_filtering_conditions :: "(event \<Rightarrow> bool) list"
  client_org_ids :: "string list option"

text \<open>\<^verbatim>\<open>_BaseQueryProcessor.__init__\<close>, with its two assertions.\<close>

definition base_init ::
  "(event \<Rightarrow> bool) list \<Rightarrow> string list option \<Rightarrow> exc + base_query_processor"
where
  "base_init conds org_ids =
     (if conds = [] then Inl AssertionError
      else if \<not> (org_ids \<noteq> Some [] \<or> org_ids = None) then Inl AssertionError
      else Inr \<lparr>access_filtering_conditions = conds, client_org_ids = org_ids\<rparr>)"

text \<open>\<^verbatim>\<open>or_(*conditions)\<close> on the event of a joined row.\<close>

definition or_conditions :: "(event \<Rightarrow> bool) list \<Rightarrow> joined_row \<Rightarrow> bool" where
  "or_conditions conds r = list_ex (\<lambda>cond. cond (fst r)) conds"

text \<open>
  \<^verbatim>\<open>client_column.in_(client_org_ids)\<close>: false for a row without a client row, whose
  \<^verbatim>\<open>client\<close> is \<^verbatim>\<open>NULL\<close>.
\<close>

definition client_in :: "string list \<Rightarrow> joined_row \<Rightarrow> bool" where
  "client_in org_ids r =
     (case snd r of None \<Rightarrow> False | Some c \<Rightarrow> c2e_client c \<in> set org_ids)"

definition query__access_filtering :: "base_query_processor \<Rightarrow> query \<Rightarrow> exc + query" where
  "query__access_filtering p q =
     (if access_filtering_conditions p = [] then Inl AssertionError
      else Inr (query_filter q (or_conditions (access_filtering_conditions p))))"

definition query__client_filtering :: "base_query_processor \<Rightarrow> query \<Rightarrow> exc + query" where
  "query__client_filtering p q =
     (case client_org_ids p of
        Some org_ids \<Rightarrow>
          (if org_ids = [] then Inl AssertionError
           else Inr (query_filter q (client_in org_ids)))
      | None \<Rightarrow> Inr q)"

section \<open>The counts query processor\<close>

text \<open>Dictionaries from categories to counts, as association lists with one entry for a key.\<close>

definition dict_fromkeys :: "string list \<Rightarrow> int \<Rightarrow> (string \<times> int) list" where
  "dict_fromkeys keys v = fold (\<lambda>k d. AList.update k v d) keys []"

definition dict_update :: "(string \<times> int) list \<Rightarrow> (string \<times> int) list \<Rightarrow> (string \<times> int) list" where
  "dict_update d pairs = fold (\<lambda>(k, v) d. AList.update k v d) pairs d"

text \<open>\<^verbatim>\<open>_build_query_for_counts_per_category\<close>\<close>

definition build_query_for_counts_per_category ::
  "base_query_processor \<Rightarrow> datetime \<Rightarrow> exc + query"
where
  "build_query_for_counts_per_category p since =
     (let query = session_query;
          query = query_outerjoin query (\<lambda>e c. c2e_id c = ev_id e \<and> c2e_time c \<ge> since);
          query = query_filter query (\<lambda>r. ev_time (fst r) \<ge> since)
      in case query__access_filtering p query of
           Inl e \<Rightarrow> Inl e
         | Inr query \<Rightarrow>
             (case query__client_filtering p query of
                Inl e \<Rightarrow> Inl e
              | Inr query \<Rightarrow> Inr (query_group_by_category query)))"

text \<open>\<^verbatim>\<open>_verify_no_illegal_categories\<close>, for the canonical categories \<^verbatim>\<open>CATEGORY_ENUMS\<close>.\<close>

definition verify_no_illegal_categories :: "string list \<Rightarrow> (string \<times> int) list \<Rightarrow> exc + unit" where
  "verify_no_illegal_categories CATEGORY_ENUMS category_to_count =
     (let illegal_categories = set (map fst category_to_count) - set CATEGORY_ENUMS
      in if illegal_categories \<noteq> {} then Inl AssertionError else Inr ())"

text \<open>
  \<^verbatim>\<open>_CountsQueryProcessor.get_counts_per_category\<close>. \<^verbatim>\<open>CATEGORY_ENUMS\<close> is defined
  outside the files at hand and is a parameter here. The result is the log written and
  either the exception raised or the dictionary returned.
\<close>

definition counts_get_counts_per_category ::
  "string list \<Rightarrow> event_db \<Rightarrow> base_query_processor \<Rightarrow> datetime
     \<Rightarrow> log_record list \<times> (exc + (string \<times> int) list)"
where
  "counts_get_counts_per_category CATEGORY_ENUMS db p since =
     (let category_to_count = dict_fromkeys CATEGORY_ENUMS 0
      in case build_query_for_counts_per_category p since of
           Inl e \<Rightarrow> ([], Inl e)
         | Inr query \<Rightarrow>
             (case handling_db_api_error (execute_counts db 0 query) of
                (logged, Inl e) \<Rightarrow> (logged, Inl e)
              | (logged, Inr category_count_pairs) \<Rightarrow>
                  (let category_to_count = dict_update category_to_count category_count_pairs
                   in case verify_no_illegal_categories CATEGORY_ENUMS category_to_count of
                        Inl e \<Rightarrow> (logged, Inl e)
                      | Inr _ \<Rightarrow>
                          (if set (map fst category_to_count) \<noteq> set CATEGORY_ENUMS
                           then (logged, Inl AssertionError)
                           else (logged, Inr category_to_count)))))"

section \<open>The data backend API: counts per category\<close>

record auth_data =
  org_id :: string
  user_id :: string

text \<open>\<^verbatim>\<open>N6DataBackendAPI.get_counts_per_category\<close>\<close>

definition get_counts_per_category ::
  "string list \<Rightarrow> event_db \<Rightarrow> auth_data \<Rightarrow> (event \<Rightarrow> bool) list \<Rightarrow> datetime
     \<Rightarrow> log_record list \<times> (exc + (string \<times> int) list)"
where
  "get_counts_per_category CATEGORY_ENUMS db auth conds since =
     (if conds = [] then ([], Inl AssertionError)
      else case base_init conds (Some [org_id auth]) of
             Inl e \<Rightarrow> ([], Inl e)
           | Inr query_processor \<Rightarrow>
               counts_get_counts_per_category CATEGORY_ENUMS db query_processor since)"

section \<open>A small example database\<close>

definition example_event :: "string \<Rightarrow> datetime \<Rightarrow> string \<Rightarrow> event" where
  "example_event i t c =
     \<lparr>ev_id = i, ev_time = t, ev_category = c, ev_url = None, ev_custom = None, ev_other = []\<rparr>"

definition example_db :: event_db where
  "example_db =
     \<lparr>db_events = [example_event ''a'' 5 ''bots'', example_event ''b'' 7 ''cnc'',
                   example_event ''c'' 9 ''bots''],
      db_client_to_events =
        [\<lparr>c2e_id = ''a'', c2e_time = 5, c2e_client = ''org1''\<rparr>,
         \<lparr>c2e_id = ''a'', c2e_time = 5, c2e_client = ''org2''\<rparr>,
         \<lparr>c2e_id = ''c'', c2e_time = 9, c2e_client = ''org1''\<rparr>,
         \<lparr>c2e_id = ''b'', c2e_time = 7, c2e_client = ''org2''\<rparr>],
      db_fault = (\<lambda>_. None)\<rparr>"

section \<open>Result dicts and the merging of fetched rows\<close>

text \<open>
  A raw result dict: the items the functions at hand read or write, and \<open>rd_other\<close> for
  all the others.
\<close>

record result_dict =
  rd_id :: string
  rd_time :: datetime
  rd_category :: string
  rd_url :: "string option"
  rd_custom :: "(string \<times> pyval) list option"
  rd_client :: "string set"
  rd_other :: "(string \<times> pyval) list"

definition row_time :: "fetched_row \<Rightarrow> datetime" where
  "row_time r = ev_time (row_event r)"

definition row_id :: "fetched_row \<Rightarrow> string" where
  "row_id r = ev_id (row_event r)"

text \<open>
  Modelled from the spec: \<^verbatim>\<open>make_raw_result_dict\<close> (module \<^verbatim>\<open>n6lib.db_events\<close>). The
  result record takes the attributes of the given row and, as its \<^verbatim>\<open>client\<close>, the given
  set of organization ids.
\<close>

definition make_raw_result_dict :: "fetched_row \<Rightarrow> string set \<Rightarrow> result_dict" where
  "make_raw_result_dict sample_row org_client_ids =
     \<lparr>rd_id = ev_id (row_event sample_row),
      rd_time = ev_time (row_event sample_row),
      rd_category = ev_category (row_event sample_row),
      rd_url = ev_url (row_event sample_row),
      rd_custom = ev_custom (row_event sample_row),
      rd_client = org_client_ids,
      rd_other = ev_other (row_event sample_row)\<rparr>"

text \<open>\<^verbatim>\<open>_make_result_dict\<close> (in \<^verbatim>\<open>_prepare_result_production_tools\<close>)\<close>

definition make_result_dict :: "fetched_row list \<Rightarrow> exc + result_dict" where
  "make_result_dict same_id_rows =
     (case same_id_rows of
        [] \<Rightarrow> Inl IndexError
      | sample_row # _ \<Rightarrow>
          (let client_field_values = map row_client same_id_rows;
               org_client_ids = set (map the (filter (\<lambda>org_id. org_id \<noteq> None)
                                                client_field_values))
           in Inr (make_raw_result_dict sample_row org_client_ids)))"

text \<open>
  Modelled from the spec: \<^verbatim>\<open>iter_grouped_by_attr\<close> (module
  \<^verbatim>\<open>n6lib.common_helpers\<close>). The objects are grouped consecutively by the value of the
  attribute: a group is a longest run of neighbours with the same value. With
  \<^verbatim>\<open>presort\<close> they are first sorted by that value (a stable sort).
\<close>

function group_consecutive :: "('a \<Rightarrow> 'k) \<Rightarrow> 'a list \<Rightarrow> 'a list list" where
  "group_consecutive key [] = []"
| "group_consecutive key (x # xs) =
     (x # takeWhile (\<lambda>y. key y = key x) xs)
       # group_consecutive key (dropWhile (\<lambda>y. key y = key x) xs)"
  by pat_completeness auto
termination
  by (relation "measure (\<lambda>(key, xs). length xs)") (auto simp: length_dropWhile_le less_Suc_eq_le)

definition iter_grouped_by_attr :: "('a \<Rightarrow> 'k::linorder) \<Rightarrow> bool \<Rightarrow> 'a list \<Rightarrow> 'a list list" where
  "iter_grouped_by_attr key presort objects =
     group_consecutive key (if presort then sort_key key objects else objects)"

section \<open>The secondary URL filter \<^verbatim>\<open>_preprocess_result_dict\<close>\<close>

text \<open>
  What the module \<^verbatim>\<open>n6lib.url_helpers\<close> and the standard library provide (none of it is
  in the files at hand): the prefix of provisional URLs, \<^verbatim>\<open>normalize_url\<close> with its
  keyword arguments (a keyword dictionary is given by its sorted items), and
  \<^verbatim>\<open>base64.urlsafe_b64decode\<close>. The two functions may raise.
\<close>

record url_helpers =
  PROVISIONAL_URL_SEARCH_KEY_PREFIX :: string
  normalize_url :: "(string \<times> pyval) list \<Rightarrow> string \<Rightarrow> exc + string"
  urlsafe_b64decode :: "string \<Rightarrow> exc + string"

text \<open>
  The cache \<^verbatim>\<open>_url_normalization_data_cache\<close>: from the sorted items of the
  normalization options to the pair of the normalizer (given by the options it was made
  with) and the normalized parameter URLs (or \<^verbatim>\<open>None\<close>).
\<close>

type_synonym url_norm_cache =
  "((string \<times> pyval) list \<times> ((string \<times> pyval) list \<times> string set option)) list"

definition startswith :: "string \<Rightarrow> string \<Rightarrow> bool" where
  "startswith s p = (take (length p) s = p)"

definition get_event_tag_for_logging :: "result_dict \<Rightarrow> log_arg" where
  "get_event_tag_for_logging result =
     Arg_event_tag (rd_id result) (rd_time result) (map_of (rd_other result) ''modified'')"

text \<open>\<^verbatim>\<open>as_bytes\<close>: a type error for what is not a string.\<close>

fun as_bytes :: "pyval \<Rightarrow> exc + string" where
  "as_bytes (PStr s) = Inr s"
| "as_bytes _ = Inl TypeError"

text \<open>\<^verbatim>\<open>.items()\<close>: an attribute error for what is not a dictionary.\<close>

fun py_items :: "pyval \<Rightarrow> exc + (string \<times> pyval) list" where
  "py_items (PDict kvs) = Inr kvs"
| "py_items _ = Inl AttributeError"

text \<open>Lists and dictionaries cannot be hashed, so a tuple that holds one cannot be a key.\<close>

fun hashable :: "pyval \<Rightarrow> bool" where
  "hashable (PList _) = False"
| "hashable (PDict _) = False"
| "hashable _ = True"

text \<open>\<^verbatim>\<open>map(f, xs)\<close> consumed to its end, for an \<open>f\<close> that may raise.\<close>

fun map_raising :: "('a \<Rightarrow> exc + 'b) \<Rightarrow> 'a list \<Rightarrow> exc + 'b list" where
  "map_raising f [] = Inr []"
| "map_raising f (x # xs) =
     (case f x of
        Inl e \<Rightarrow> Inl e
      | Inr y \<Rightarrow> (case map_raising f xs of Inl e \<Rightarrow> Inl e | Inr ys \<Rightarrow> Inr (y # ys)))"

text \<open>
  The normalized parameter URLs computed when the cache has no item for the options:
  \<^verbatim>\<open>None\<close> when the query has no \<^verbatim>\<open>url.b64\<close> parameter, else the set of the
  normalized values of the parameter.
\<close>

definition param_urls_norm_for ::
  "url_helpers \<Rightarrow> (string \<times> string list) list \<Rightarrow> (string \<times> pyval) list \<Rightarrow> exc + string set option"
where
  "param_urls_norm_for h filtering_params normalizer =
     (case map_of filtering_params ''url.b64'' of
        Some param_urls \<Rightarrow>
          (case map_raising (normalize_url h normalizer) param_urls of
             Inl e \<Rightarrow> Inl e
           | Inr normed \<Rightarrow> Inr (Some (set normed)))
      | None \<Rightarrow> Inr None)"

text \<open>
  The last part of \<^verbatim>\<open>_preprocess_result_dict\<close>, the case of matching based on
  \<^verbatim>\<open>url_data\<close>: \<open>items\<close> are the items of \<^verbatim>\<open>url_data\<close>, known to have exactly the keys
  \<^verbatim>\<open>url_orig\<close> and \<^verbatim>\<open>url_norm_opts\<close>. The result is the new cache and either the
  exception raised or the result dict kept (\<^verbatim>\<open>None\<close> when it is dropped).
\<close>

definition url_data_based_matching ::
  "url_helpers \<Rightarrow> (string \<times> string list) list \<Rightarrow> url_norm_cache \<Rightarrow> result_dict
     \<Rightarrow> (string \<times> pyval) list \<Rightarrow> url_norm_cache \<times> (exc + result_dict option)"
where
  "url_data_based_matching h filtering_params url_norm_cache result items =
     (case as_bytes (the (map_of items ''url_orig'')) of
        Inl e \<Rightarrow> (url_norm_cache, Inl e)
      | Inr encoded \<Rightarrow>
     (case urlsafe_b64decode h encoded of
        Inl e \<Rightarrow> (url_norm_cache, Inl e)
      | Inr url_orig \<Rightarrow>
     (case py_items (the (map_of items ''url_norm_opts'')) of
        Inl e \<Rightarrow> (url_norm_cache, Inl e)
      | Inr url_norm_opts \<Rightarrow>
     (let url_norm_cache_key = sort_key fst url_norm_opts
      in if \<not> list_all (\<lambda>kv. hashable (snd kv)) url_norm_cache_key
         then (url_norm_cache, Inl TypeError)
         else
     (case (case map_of url_norm_cache url_norm_cache_key of
              Some url_norm_cache_item \<Rightarrow> Inr (url_norm_cache_item, url_norm_cache)
            | None \<Rightarrow>
                (let normalizer = url_norm_cache_key
                 in case param_urls_norm_for h filtering_params normalizer of
                      Inl e \<Rightarrow> Inl e
                    | Inr param_urls_norm \<Rightarrow>
                        Inr ((normalizer, param_urls_norm),
                             AList.update url_norm_cache_key (normalizer, param_urls_norm)
                               url_norm_cache))) of
        Inl e \<Rightarrow> (url_norm_cache, Inl e)
      | Inr ((normalizer, param_urls_norm), url_norm_cache') \<Rightarrow>
     (case normalize_url h normalizer url_orig of
        Inl e \<Rightarrow> (url_norm_cache', Inl e)
      | Inr result_url_norm \<Rightarrow>
          (if param_urls_norm \<noteq> None \<and> result_url_norm \<notin> the param_urls_norm
           then (url_norm_cache', Inr None)
           else (url_norm_cache', Inr (Some (result\<lparr>rd_url := Some result_url_norm\<rparr>))))))))))"

text \<open>
  \<^verbatim>\<open>custom.pop('url_data', None)\<close>, when \<^verbatim>\<open>custom\<close> is there: the value popped
  (\<^verbatim>\<open>None\<close> when there is no such item) and the result dict it leaves.
\<close>

definition custom_url_data :: "result_dict \<Rightarrow> pyval" where
  "custom_url_data result =
     (case rd_custom result of
        None \<Rightarrow> PNone
      | Some custom \<Rightarrow> (case map_of custom ''url_data'' of None \<Rightarrow> PNone | Some v \<Rightarrow> v))"

definition pop_url_data :: "result_dict \<Rightarrow> result_dict" where
  "pop_url_data result =
     (case rd_custom result of
        None \<Rightarrow> result
      | Some custom \<Rightarrow> result\<lparr>rd_custom := Some (AList.delete ''url_data'' custom)\<rparr>)"

text \<open>
  \<^verbatim>\<open>_preprocess_result_dict\<close>: the log records written, the new cache, and either the
  exception raised or the result dict kept (\<^verbatim>\<open>None\<close> when it is dropped).
\<close>

definition preprocess_result_dict ::
  "url_helpers \<Rightarrow> (string \<times> string list) list \<Rightarrow> url_norm_cache \<Rightarrow> result_dict
     \<Rightarrow> log_record list \<times> url_norm_cache \<times> (exc + result_dict option)"
where
  "preprocess_result_dict h filtering_params url_norm_cache result0 =
     (let event_tag = get_event_tag_for_logging result0;
          url_data = custom_url_data result0;
          result = pop_url_data result0;
          url = rd_url result;
          prefix = PROVISIONAL_URL_SEARCH_KEY_PREFIX h
      in if url_data = PNone then
           (if url \<noteq> None \<and> startswith (the url) prefix
            then ([(WARNING, [Arg_opt_str url, Arg_str prefix, event_tag])],
                  url_norm_cache, Inr None)
            else ([], url_norm_cache, Inr (Some result)))
         else if url = None \<or> \<not> startswith (the url) prefix
           then ([(ERROR, [Arg_val url_data, Arg_opt_str url, Arg_str prefix, event_tag])],
                 url_norm_cache, Inr None)
         else
           (case url_data of
              PDict items \<Rightarrow>
                (if set (map fst items) \<noteq> {''url_orig'', ''url_norm_opts''}
                 then ([(ERROR, [Arg_val url_data, event_tag])], url_norm_cache, Inr None)
                 else (case url_data_based_matching h filtering_params url_norm_cache result items of
                         (url_norm_cache', r) \<Rightarrow> ([], url_norm_cache', r)))
            | _ \<Rightarrow> ([(ERROR, [Arg_val url_data, event_tag])], url_norm_cache, Inr None)))"



text \<open>Example helpers: the prefix \<^verbatim>\<open>SY:\<close>, a decoder and a normalizer that change nothing.\<close>

definition example_url_helpers :: url_helpers where
  "example_url_helpers =
     \<lparr>PROVISIONAL_URL_SEARCH_KEY_PREFIX = ''SY:'',
      normalize_url = (\<lambda>opts u. Inr u),
      urlsafe_b64decode = (\<lambda>s. Inr s)\<rparr>"




section \<open>The events query processor\<close>

text \<open>
  The state \<^verbatim>\<open>__init__\<close> leaves in the processor: the two filters of the base class, the
  step in days, the optional limit, the time constraints, the filtering parameters and the
  base of all queries. (The cache of URL normalization data starts empty and changes while
  results are generated; it is part of the state of a run, below.)
\<close>

record events_query_processor =
  eqp_base :: base_query_processor
  eqp_day_step :: int
  eqp_opt_limit :: "int option"
  eqp_time_constraints :: time_constraints
  eqp_filtering_params :: "(string \<times> string list) list"
  eqp_query_base :: query

text \<open>\<^verbatim>\<open>_allowed_to_have_query_func\<close>\<close>

definition allowed_to_have_query_func :: "string \<Rightarrow> bool" where
  "allowed_to_have_query_func param_key =
     (param_key \<noteq> ''client'' \<and> \<not> (startswith param_key ''time.'' \<or> startswith param_key ''opt.''))"

text \<open>
  \<^verbatim>\<open>query__param_filtering\<close>: one \<^verbatim>\<open>filter()\<close> for each parameter, made by the query
  function registered for its key (a \<^verbatim>\<open>KeyError\<close> when there is none). The registry
  \<^verbatim>\<open>_key_to_query_func\<close> comes from the data spec, outside the files at hand, and is a
  parameter.
\<close>

type_synonym query_func_registry = "(string \<times> (string \<Rightarrow> string list \<Rightarrow> event \<Rightarrow> bool)) list"

fun query__param_filtering ::
  "query_func_registry \<Rightarrow> (string \<times> string list) list \<Rightarrow> query \<Rightarrow> exc + query"
where
  "query__param_filtering key_to_query_func [] query = Inr query"
| "query__param_filtering key_to_query_func ((key, val) # rest) query =
     (case map_of key_to_query_func key of
        None \<Rightarrow> Inl (KeyError key)
      | Some query_func \<Rightarrow>
          query__param_filtering key_to_query_func rest
            (query_filter query (\<lambda>r. query_func key val (fst r))))"

text \<open>\<^verbatim>\<open>_build_query_base\<close>\<close>

definition build_query_base ::
  "query_func_registry \<Rightarrow> base_query_processor \<Rightarrow> (string \<times> string list) list \<Rightarrow> exc + query"
where
  "build_query_base key_to_query_func base filtering_params =
     (case query__param_filtering key_to_query_func filtering_params session_query of
        Inl e \<Rightarrow> Inl e
      | Inr query \<Rightarrow>
          (case query__access_filtering base query of
             Inl e \<Rightarrow> Inl e
           | Inr query \<Rightarrow> query__client_filtering base query))"

text \<open>\<^verbatim>\<open>_EventsQueryProcessor.__init__\<close>\<close>

definition events_init ::
  "query_func_registry \<Rightarrow> (event \<Rightarrow> bool) list \<Rightarrow> string list option \<Rightarrow> int \<Rightarrow> int option
     \<Rightarrow> time_constraints \<Rightarrow> (string \<times> string list) list \<Rightarrow> exc + events_query_processor"
where
  "events_init key_to_query_func conds org_ids day_step opt_limit time_constraints filtering_params =
     (if \<not> list_all (\<lambda>kv. allowed_to_have_query_func (fst kv)) filtering_params
      then Inl AssertionError
      else case base_init conds org_ids of
             Inl e \<Rightarrow> Inl e
           | Inr base \<Rightarrow>
               (case build_query_base key_to_query_func base filtering_params of
                  Inl e \<Rightarrow> Inl e
                | Inr query_base \<Rightarrow>
                    Inr \<lparr>eqp_base = base, eqp_day_step = day_step, eqp_opt_limit = opt_limit,
                         eqp_time_constraints = time_constraints,
                         eqp_filtering_params = filtering_params,
                         eqp_query_base = query_base\<rparr>))"

text \<open>What a run of the processor works with: the database, the clock and the URL helpers.\<close>

record run_env =
  env_db :: event_db
  env_now :: datetime
  env_url_helpers :: url_helpers

text \<open>\<^verbatim>\<open>_build_query_base_for_single_step\<close>\<close>

definition build_query_base_for_single_step ::
  "events_query_processor \<Rightarrow> time_window \<Rightarrow> query"
where
  "build_query_base_for_single_step p w =
     (let compare_to_time_lower = apply_cmp (fst w);
          compare_to_time_upper = apply_cmp (snd w);
          query = query_filter (eqp_query_base p)
                    (\<lambda>r. compare_to_time_lower (ev_time (fst r))
                         \<and> compare_to_time_upper (ev_time (fst r)));
          query = query_outerjoin query
                    (\<lambda>e c. c2e_id c = ev_id e
                           \<and> compare_to_time_lower (c2e_time c)
                           \<and> compare_to_time_upper (c2e_time c))
      in query_order_by_time_desc query)"

text \<open>
  \<^verbatim>\<open>_build_actual_query\<close>, for the number of results produced so far: the query and its
  limit (\<^verbatim>\<open>None\<close> without \<^verbatim>\<open>opt_limit\<close>).
\<close>

definition build_actual_query ::
  "events_query_processor \<Rightarrow> query \<Rightarrow> nat \<Rightarrow> nat \<Rightarrow> exc + (query \<times> nat option)"
where
  "build_actual_query p cur_step_query_base cur_step_fetched_rows_count produced_results_count =
     (case eqp_opt_limit p of
        Some opt_limit \<Rightarrow>
          (let still_expected = opt_limit - int produced_results_count
           in if \<not> still_expected > 0 then Inl AssertionError
              else (let reserve = max 100 (still_expected div 4);
                        query_limit = still_expected + reserve
                    in Inr (query_with_offset (query_with_limit cur_step_query_base (nat query_limit))
                              cur_step_fetched_rows_count,
                            Some (nat query_limit))))
      | None \<Rightarrow> Inr (cur_step_query_base, None))"

section \<open>The generator of fetched rows\<close>

text \<open>
  The local state of \<^verbatim>\<open>_fetch_rows_for_single_step\<close> while it is suspended in a window:
  the window and its query base, the two counters, the limit of the query in progress and
  the rows its iterator has not given yet.
\<close>

record step_state =
  st_window :: time_window
  st_query_base :: query
  st_fetched_rows_count :: nat
  st_page :: "fetched_row list"
  st_query_limit :: "nat option"
  st_query_fetched_rows_count :: nat

text \<open>
  The state of the generator \<^verbatim>\<open>_fetch_rows_from_db\<close>: the state of the window generator
  it iterates over, the window in progress (if any), whether it has finished, what it logged;
  and, as a record of what it did, the queries executed (window, limit, offset) and the rows
  given out so far.
\<close>

record gen_state =
  g_steps :: steps_state
  g_cur :: "step_state option"
  g_finished :: bool
  g_logged :: "log_record list"
  g_queries :: "(time_window \<times> nat option \<times> nat) list"
  g_delivered :: "fetched_row list"

definition gen_init :: gen_state where
  "gen_init = \<lparr>g_steps = Steps_start, g_cur = None, g_finished = False, g_logged = [],
               g_queries = [], g_delivered = []\<rparr>"

text \<open>
  What one move of the generator gives: a row, its end (\<^verbatim>\<open>StopIteration\<close>), an exception,
  or nothing yet (a query was executed or a window was finished, and the generator moves on).
\<close>

datatype gen_result =
  Gen_row fetched_row gen_state
  | Gen_stop gen_state
  | Gen_raise exc gen_state
  | Gen_more gen_state

text \<open>
  One round of the \<^verbatim>\<open>while True\<close> loop of \<^verbatim>\<open>_fetch_rows_for_single_step\<close> up to the
  iterator over the rows of the query: the query is built for the current number of results
  and executed under \<^verbatim>\<open>handling_db_api_error\<close>.
\<close>

definition fetch_page ::
  "run_env \<Rightarrow> events_query_processor \<Rightarrow> nat \<Rightarrow> gen_state \<Rightarrow> time_window \<Rightarrow> query \<Rightarrow> nat
     \<Rightarrow> gen_result"
where
  "fetch_page env p produced_results_count g w cur_step_query_base cur_step_fetched_rows_count =
     (case build_actual_query p cur_step_query_base cur_step_fetched_rows_count
             produced_results_count of
        Inl e \<Rightarrow> Gen_raise e (g\<lparr>g_cur := None, g_finished := True\<rparr>)
      | Inr (query, query_limit) \<Rightarrow>
          (case handling_db_api_error
                  (execute_rows (env_db env) (length (g_queries g)) query) of
             (logged, Inl e) \<Rightarrow>
               Gen_raise e
                 (g\<lparr>g_cur := None, g_finished := True, g_logged := g_logged g @ logged,
                    g_queries := g_queries g @ [(w, query_limit, cur_step_fetched_rows_count)]\<rparr>)
           | (logged, Inr rows) \<Rightarrow>
               Gen_more
                 (g\<lparr>g_cur := Some \<lparr>st_window = w, st_query_base = cur_step_query_base,
                                   st_fetched_rows_count = cur_step_fetched_rows_count,
                                   st_page = rows, st_query_limit = query_limit,
                                   st_query_fetched_rows_count = 0\<rparr>,
                    g_logged := g_logged g @ logged,
                    g_queries := g_queries g @ [(w, query_limit, cur_step_fetched_rows_count)]\<rparr>)))"

text \<open>
  One move of \<^verbatim>\<open>_fetch_rows_from_db\<close>. With no window in progress the next window is
  taken from the window generator and its first query executed. In a window, the next row of
  the query in progress is given out; when the query has no more rows, the window is finished
  if the query had no limit or gave fewer rows than its limit, and else the next query of the
  window is executed.
\<close>

definition gen_next :: "run_env \<Rightarrow> events_query_processor \<Rightarrow> nat \<Rightarrow> gen_state \<Rightarrow> gen_result" where
  "gen_next env p produced_results_count g =
     (if g_finished g then Gen_stop g
      else case g_cur g of
        None \<Rightarrow>
          (case steps_next (eqp_day_step p) (env_now env) (eqp_time_constraints p) (g_steps g) of
             None \<Rightarrow> Gen_stop (g\<lparr>g_finished := True\<rparr>)
           | Some (w, steps') \<Rightarrow>
               fetch_page env p produced_results_count (g\<lparr>g_steps := steps'\<rparr>) w
                 (build_query_base_for_single_step p w) 0)
      | Some st \<Rightarrow>
          (case st_page st of
             row # rest \<Rightarrow>
               Gen_row row
                 (g\<lparr>g_cur := Some (st\<lparr>st_page := rest,
                                      st_fetched_rows_count := st_fetched_rows_count st + 1,
                                      st_query_fetched_rows_count :=
                                        st_query_fetched_rows_count st + 1\<rparr>),
                    g_delivered := g_delivered g @ [row]\<rparr>)
           | [] \<Rightarrow>
               (if st_query_limit st = None
                   \<or> st_query_fetched_rows_count st < the (st_query_limit st)
                then Gen_more (g\<lparr>g_cur := None\<rparr>)
                else fetch_page env p produced_results_count g (st_window st)
                       (st_query_base st) (st_fetched_rows_count st))))"

text \<open>
  Closing the generator (\<^verbatim>\<open>closing(rows_generator)\<close>): the rows left in the iterator of
  the query in progress are drained, and the generator is finished.
\<close>

definition gen_close :: "gen_state \<Rightarrow> gen_state" where
  "gen_close g = g\<lparr>g_cur := None, g_finished := True\<rparr>"

section \<open>Generating the query results\<close>

text \<open>How \<^verbatim>\<open>generate_query_results\<close> ends.\<close>

datatype outcome =
  Returned_limit_reached
  | Returned_exhausted
  | Raised exc

text \<open>
  Where \<^verbatim>\<open>generate_query_results\<close> is: collecting the rows of the next time-group from
  the generator (the rows collected so far); producing results from the id-groups of a
  time-group (the id-groups left, and the row read ahead, which starts the next time-group,
  if there is one); or finished.
\<close>

datatype phase =
  Collecting "fetched_row list"
  | Processing "fetched_row list list" "fetched_row option"
  | Finished outcome

record run_state =
  rs_gen :: gen_state
  rs_phase :: phase
  rs_results_counter :: nat
  rs_yielded :: "result_dict list"
  rs_cache :: url_norm_cache
  rs_logged :: "log_record list"

definition run_init :: run_state where
  "run_init = \<lparr>rs_gen = gen_init, rs_phase = Collecting [], rs_results_counter = 0,
               rs_yielded = [], rs_cache = [], rs_logged = []\<rparr>"

text \<open>\<^verbatim>\<open>enough_results_produced\<close>\<close>

definition enough_results_produced :: "events_query_processor \<Rightarrow> nat \<Rightarrow> bool" where
  "enough_results_produced p results_counter =
     (eqp_opt_limit p \<noteq> None \<and> int results_counter \<ge> the (eqp_opt_limit p))"

text \<open>
  The end of the body of the inner loop: when enough results are produced the function
  returns (after its assertion), closing the generator; else it goes on with the id-groups
  left.
\<close>

definition after_id_group ::
  "events_query_processor \<Rightarrow> fetched_row list list \<Rightarrow> fetched_row option \<Rightarrow> run_state \<Rightarrow> run_state"
where
  "after_id_group p groups ahead s =
     (if enough_results_produced p (rs_results_counter s)
      then s\<lparr>rs_gen := gen_close (rs_gen s),
             rs_phase := Finished (if Some (int (rs_results_counter s)) = eqp_opt_limit p
                                   then Returned_limit_reached else Raised AssertionError)\<rparr>
      else s\<lparr>rs_phase := Processing groups ahead\<rparr>)"

text \<open>
  One move of \<^verbatim>\<open>generate_query_results\<close>, consumed to its end by its caller: a move of
  the generator while a time-group is collected, or the production of the result of one
  id-group. The rows of a time-group are complete when the generator gives a row with another
  \<^verbatim>\<open>time\<close> (which is kept as read ahead) or ends.
\<close>

definition run_step :: "run_env \<Rightarrow> events_query_processor \<Rightarrow> run_state \<Rightarrow> run_state" where
  "run_step env p s =
     (case rs_phase s of
        Finished _ \<Rightarrow> s
      | Collecting same_time_rows \<Rightarrow>
          (case gen_next env p (rs_results_counter s) (rs_gen s) of
             Gen_more g \<Rightarrow> s\<lparr>rs_gen := g\<rparr>
           | Gen_raise e g \<Rightarrow> s\<lparr>rs_gen := g, rs_phase := Finished (Raised e)\<rparr>
           | Gen_stop g \<Rightarrow>
               (case same_time_rows of
                  [] \<Rightarrow>
                    s\<lparr>rs_gen := g,
                      rs_phase := Finished
                        (if eqp_opt_limit p = None
                            \<or> int (rs_results_counter s) < the (eqp_opt_limit p)
                         then Returned_exhausted else Raised AssertionError)\<rparr>
                | _ \<Rightarrow>
                    s\<lparr>rs_gen := g,
                      rs_phase := Processing (iter_grouped_by_attr row_id True same_time_rows) None\<rparr>)
           | Gen_row row g \<Rightarrow>
               (case same_time_rows of
                  [] \<Rightarrow> s\<lparr>rs_gen := g, rs_phase := Collecting [row]\<rparr>
                | first # _ \<Rightarrow>
                    (if row_time row = row_time first
                     then s\<lparr>rs_gen := g, rs_phase := Collecting (same_time_rows @ [row])\<rparr>
                     else s\<lparr>rs_gen := g,
                            rs_phase := Processing (iter_grouped_by_attr row_id True same_time_rows)
                                          (Some row)\<rparr>)))
      | Processing [] ahead \<Rightarrow>
          s\<lparr>rs_phase := Collecting (case ahead of None \<Rightarrow> [] | Some row \<Rightarrow> [row])\<rparr>
      | Processing (same_id_rows # groups) ahead \<Rightarrow>
          (case make_result_dict same_id_rows of
             Inl e \<Rightarrow> s\<lparr>rs_gen := gen_close (rs_gen s), rs_phase := Finished (Raised e)\<rparr>
           | Inr result_dict \<Rightarrow>
               (case preprocess_result_dict (env_url_helpers env) (eqp_filtering_params p)
                       (rs_cache s) result_dict of
                  (logged, cache, Inl e) \<Rightarrow>
                    s\<lparr>rs_gen := gen_close (rs_gen s), rs_phase := Finished (Raised e),
                      rs_cache := cache, rs_logged := rs_logged s @ logged\<rparr>
                | (logged, cache, Inr None) \<Rightarrow>
                    after_id_group p groups ahead
                      (s\<lparr>rs_cache := cache, rs_logged := rs_logged s @ logged\<rparr>)
                | (logged, cache, Inr (Some result_dict)) \<Rightarrow>
                    after_id_group p groups ahead
                      (s\<lparr>rs_cache := cache, rs_logged := rs_logged s @ logged,
                         rs_results_counter := rs_results_counter s + 1,
                         rs_yielded := rs_yielded s @ [result_dict]\<rparr>))))"

text \<open>The state after a number of moves.\<close>

definition run_for :: "run_env \<Rightarrow> events_query_processor \<Rightarrow> nat \<Rightarrow> run_state" where
  "run_for env p n = (run_step env p ^^ n) run_init"

text \<open>
  An example: three events, one in each of three days, the oldest with two client rows; and
  a processor on them with a given limit, a step of one day and three windows.
\<close>

definition example_db_days :: event_db where
  "example_db_days =
     \<lparr>db_events = [example_event ''a'' 5 ''bots'', example_event ''b'' 86400000007 ''cnc'',
                   example_event ''c'' 172800000009 ''bots''],
      db_client_to_events =
        [\<lparr>c2e_id = ''a'', c2e_time = 5, c2e_client = ''org1''\<rparr>,
         \<lparr>c2e_id = ''a'', c2e_time = 5, c2e_client = ''org2''\<rparr>,
         \<lparr>c2e_id = ''c'', c2e_time = 172800000009, c2e_client = ''org1''\<rparr>,
         \<lparr>c2e_id = ''b'', c2e_time = 86400000007, c2e_client = ''org2''\<rparr>],
      db_fault = (\<lambda>_. None)\<rparr>"

definition example_env :: run_env where
  "example_env = \<lparr>env_db = example_db_days, env_now = 0, env_url_helpers = example_url_helpers\<rparr>"

definition example_processor :: "int option \<Rightarrow> events_query_processor" where
  "example_processor opt_limit =
     \<lparr>eqp_base = \<lparr>access_filtering_conditions = [\<lambda>e. True], client_org_ids = None\<rparr>,
      eqp_day_step = 1, eqp_opt_limit = opt_limit,
      eqp_time_constraints = (0, Some 200000000000, None),
      eqp_filtering_params = [],
      eqp_query_base = query_filter session_query (or_conditions [\<lambda>e. True])\<rparr>"

text \<open>
  Smaller examples: the example database of three events within one window, and an empty
  database.
\<close>

definition example_env_one_window :: run_env where
  "example_env_one_window =
     \<lparr>env_db = example_db, env_now = 0, env_url_helpers = example_url_helpers\<rparr>"

definition example_env_empty :: run_env where
  "example_env_empty =
     \<lparr>env_db = \<lparr>db_events = [], db_client_to_events = [], db_fault = (\<lambda>_. None)\<rparr>,
      env_now = 0, env_url_helpers = example_url_helpers\<rparr>"

definition example_processor_one_window :: "int option \<Rightarrow> events_query_processor" where
  "example_processor_one_window opt_limit =
     \<lparr>eqp_base = \<lparr>access_filtering_conditions = [\<lambda>e. True], client_org_ids = None\<rparr>,
      eqp_day_step = 1, eqp_opt_limit = opt_limit,
      eqp_time_constraints = (0, Some 10, None),
      eqp_filtering_params = [],
      eqp_query_base = query_filter session_query (or_conditions [\<lambda>e. True])\<rparr>"

section \<open>Invariants of a run\<close>


text \<open>The windows the window generator yields from a state on.\<close>

inductive later_window ::
  "int \<Rightarrow> datetime \<Rightarrow> time_constraints \<Rightarrow> steps_state \<Rightarrow> time_window \<Rightarrow> bool"
  for day_step now tc
where
  next_window: "steps_next day_step now tc s = Some (w, s') \<Longrightarrow> later_window day_step now tc s w"
| further_window: "steps_next day_step now tc s = Some (w0, s') \<Longrightarrow> later_window day_step now tc s' w
     \<Longrightarrow> later_window day_step now tc s w"

text \<open>All the rows of a window: what the query base of its step selects.\<close>

definition step_rows :: "run_env \<Rightarrow> events_query_processor \<Rightarrow> time_window \<Rightarrow> fetched_row list" where
  "step_rows env p w =
     map fetched_row_of (selected_rows (env_db env) (build_query_base_for_single_step p w))"

definition descending_rows :: "fetched_row list \<Rightarrow> bool" where
  "descending_rows rows = sorted_wrt (\<lambda>a b. row_time b \<le> row_time a) rows"

text \<open>
  The invariant of the generator of rows. The rows given out so far descend in time. No
  window yet to come admits a time above that of a row given out. In a window: queries have
  limits only if the processor has one; the rows the query in progress still holds are the
  next rows of the window, after those already fetched; the rows of the window not yet
  fetched are not above any row given out; and no window yet to come admits a time above a
  time the window in progress admits.
\<close>

definition gen_invariant :: "run_env \<Rightarrow> events_query_processor \<Rightarrow> gen_state \<Rightarrow> bool" where
  "gen_invariant env p g =
     (descending_rows (g_delivered g)
      \<and> (\<forall>w t. later_window (eqp_day_step p) (env_now env) (eqp_time_constraints p) (g_steps g) w
                 \<longrightarrow> in_window w t \<longrightarrow> (\<forall>d\<in>set (g_delivered g). t \<le> row_time d))
      \<and> (case g_cur g of
           None \<Rightarrow> True
         | Some st \<Rightarrow>
             (st_query_limit st \<noteq> None \<longrightarrow> eqp_opt_limit p \<noteq> None)
             \<and> st_query_base st = build_query_base_for_single_step p (st_window st)
             \<and> (\<exists>n. st_page st = take n (drop (st_fetched_rows_count st)
                                              (step_rows env p (st_window st))))
             \<and> (\<forall>d\<in>set (g_delivered g).
                   \<forall>r\<in>set (drop (st_fetched_rows_count st) (step_rows env p (st_window st))).
                     row_time r \<le> row_time d)
             \<and> (\<forall>w t t'. later_window (eqp_day_step p) (env_now env) (eqp_time_constraints p)
                              (g_steps g) w
                   \<longrightarrow> in_window w t \<longrightarrow> in_window (st_window st) t' \<longrightarrow> t \<le> t')))"

text \<open>
  The invariant of a run, for the order of the results. The generator's invariant holds.
  The results yielded descend in time, and each has the time of a row given out. The rows
  held (of the time-group being collected, or of the id-groups not yet processed) are rows
  given out, all of one time, which is not above the time of any result yielded; a row read
  ahead is not above the rows held nor above any result yielded.
\<close>

definition order_invariant :: "run_env \<Rightarrow> events_query_processor \<Rightarrow> run_state \<Rightarrow> bool" where
  "order_invariant env p s =
     (gen_invariant env p (rs_gen s)
      \<and> sorted_wrt (\<lambda>a b. rd_time b \<le> rd_time a) (rs_yielded s)
      \<and> (\<forall>y\<in>set (rs_yielded s). \<exists>d\<in>set (g_delivered (rs_gen s)). row_time d = rd_time y)
      \<and> (case rs_phase s of
           Collecting rows \<Rightarrow>
             set rows \<subseteq> set (g_delivered (rs_gen s))
             \<and> (\<forall>r\<in>set rows. \<forall>r'\<in>set rows. row_time r = row_time r')
             \<and> (\<forall>y\<in>set (rs_yielded s). \<forall>r\<in>set rows. row_time r \<le> rd_time y)
         | Processing groups ahead \<Rightarrow>
             (\<forall>g\<in>set groups. g \<noteq> [])
             \<and> set (concat groups) \<subseteq> set (g_delivered (rs_gen s))
             \<and> (\<forall>r\<in>set (concat groups). \<forall>r'\<in>set (concat groups). row_time r = row_time r')
             \<and> (\<forall>y\<in>set (rs_yielded s). \<forall>r\<in>set (concat groups). row_time r \<le> rd_time y)
             \<and> (case ahead of
                  None \<Rightarrow> True
                | Some row \<Rightarrow>
                    row \<in> set (g_delivered (rs_gen s))
                    \<and> (\<forall>r\<in>set (concat groups). row_time row \<le> row_time r)
                    \<and> (\<forall>y\<in>set (rs_yielded s). row_time row \<le> rd_time y))
         | Finished _ \<Rightarrow> True))"

text \<open>The base of all queries has no limit and no offset of its own.\<close>

definition plain_query_base :: "events_query_processor \<Rightarrow> bool" where
  "plain_query_base p = (q_limit (eqp_query_base p) = None \<and> q_offset (eqp_query_base p) = 0)"

section \<open>Properties of the window generator\<close>


lemma max_shift:
  fixes sd :: int
  assumes "0 < sd"
  shows "max tmin (max tmin (lo - sd) - int j * sd) = max tmin (lo - (int j + 1) * sd)"
proof -
  have "0 \<le> int j * sd" using assms by simp
  then show ?thesis by (simp add: algebra_simps max_def)
qed

lemma steps_loop_total:
  assumes sd: "0 < timedelta_days day_step"
  shows "tmin \<le> lo \<Longrightarrow> \<exists>ws. steps_from day_step now (tmin, tmax, tu) (Steps_loop lo (Some up)) acc = Some (acc @ ws)
            \<and> (\<forall>i<length ws. ws ! i = (Ge (max tmin (lo - (int i + 1) * timedelta_days day_step)),
                                        Lt (max tmin (lo - int i * timedelta_days day_step))))
            \<and> (\<forall>i<length ws. tmin < lo - int i * timedelta_days day_step)
            \<and> (tmin < lo \<longrightarrow> ws \<noteq> [] \<and> fst (last ws) = Ge tmin)
            \<and> (lo = tmin \<longrightarrow> ws = [])"
proof (induction "nat (lo - tmin)" arbitrary: lo up acc rule: less_induct)
  case less
  let ?sd = "timedelta_days day_step"
  show ?case
  proof (cases "tmin < lo")
    case False
    with less.prems have "lo = tmin" by simp
    then show ?thesis
      by (subst steps_from.simps) (simp add: steps_loop_next_def)
  next
    case True
    let ?lo' = "max tmin (lo - ?sd)"
    let ?w = "(Ge ?lo', Lt lo)"
    have dec: "nat (?lo' - tmin) < nat (lo - tmin)" using True sd by (simp add: max_def)
    have ge: "tmin \<le> ?lo'" by simp
    from less.hyps[OF dec ge, of lo "acc @ [?w]"]
    obtain ws where run: "steps_from day_step now (tmin, tmax, tu) (Steps_loop ?lo' (Some lo)) (acc @ [?w]) = Some ((acc @ [?w]) @ ws)"
      and idx: "\<forall>i<length ws. ws ! i = (Ge (max tmin (?lo' - (int i + 1) * ?sd)), Lt (max tmin (?lo' - int i * ?sd)))"
      and big: "\<forall>i<length ws. tmin < ?lo' - int i * ?sd"
      and lst: "tmin < ?lo' \<longrightarrow> ws \<noteq> [] \<and> fst (last ws) = Ge tmin"
      and emp: "?lo' = tmin \<longrightarrow> ws = []"
      by blast
    have unfold: "steps_from day_step now (tmin, tmax, tu) (Steps_loop lo (Some up)) acc = Some (acc @ (?w # ws))"
      using True run by (subst steps_from.simps) (simp add: steps_loop_next_def)
    have idx': "\<forall>i<length (?w # ws). (?w # ws) ! i = (Ge (max tmin (lo - (int i + 1) * ?sd)), Lt (max tmin (lo - int i * ?sd)))"
    proof (intro allI impI)
      fix i assume i: "i < length (?w # ws)"
      show "(?w # ws) ! i = (Ge (max tmin (lo - (int i + 1) * ?sd)), Lt (max tmin (lo - int i * ?sd)))"
      proof (cases i)
        case 0
        then show ?thesis using True by (simp add: max_def)
      next
        case (Suc j)
        with i have j: "j < length ws" by simp
        have a: "max tmin (?lo' - (int j + 1) * ?sd) = max tmin (lo - (int (Suc j) + 1) * ?sd)"
          using max_shift[OF sd, of tmin lo "Suc j"] by (simp add: algebra_simps)
        have b: "max tmin (?lo' - int j * ?sd) = max tmin (lo - int (Suc j) * ?sd)"
          using max_shift[OF sd, of tmin lo j] by (simp add: algebra_simps)
        from idx j have "ws ! j = (Ge (max tmin (?lo' - (int j + 1) * ?sd)), Lt (max tmin (?lo' - int j * ?sd)))" by blast
        with a b Suc show ?thesis by simp
      qed
    qed
    have big': "\<forall>i<length (?w # ws). tmin < lo - int i * ?sd"
    proof (intro allI impI)
      fix i assume i: "i < length (?w # ws)"
      show "tmin < lo - int i * ?sd"
      proof (cases i)
        case 0
        then show ?thesis using True by simp
      next
        case (Suc j)
        with i have j: "j < length ws" by simp
        with big have 1: "tmin < ?lo' - int j * ?sd" by blast
        have "0 \<le> int j * ?sd" using sd by simp
        with 1 have "tmin < ?lo'" by linarith
        then have "?lo' = lo - ?sd" by (simp add: max_def split: if_splits)
        with 1 Suc show ?thesis by (simp add: algebra_simps)
      qed
    qed
    have lst': "fst (last (?w # ws)) = Ge tmin"
    proof (cases "tmin < ?lo'")
      case True
      with lst show ?thesis by simp
    next
      case False
      with ge have "?lo' = tmin" by simp
      with emp show ?thesis by simp
    qed
    from unfold idx' big' lst' True show ?thesis by blast
  qed
qed

text \<open>
  The shape of the whole sequence, from the first window: \<open>hi\<close> is the upper bound of
  the first window and \<open>c\<close> its comparison.
\<close>

lemma steps_shape:
  assumes ds: "1 \<le> day_step"
    and first: "steps_next day_step now (tmin, tmax, tu) Steps_start
                 = Some ((Ge (max tmin (hi - timedelta_days day_step)), c),
                         Steps_loop (max tmin (hi - timedelta_days day_step)) (Some hi))"
  shows "\<exists>ws. time_comparisons_per_step day_step now (tmin, tmax, tu) = Some ws
          \<and> ws \<noteq> []
          \<and> (\<forall>i<length ws. fst (ws ! i) = Ge (max tmin (hi - (int i + 1) * timedelta_days day_step)))
          \<and> snd (ws ! 0) = c
          \<and> (\<forall>i<length ws. 0 < i \<longrightarrow> snd (ws ! i) = Lt (hi - int i * timedelta_days day_step))
          \<and> (\<forall>i<length ws. 0 < i \<longrightarrow> tmin < hi - int i * timedelta_days day_step)
          \<and> fst (last ws) = Ge tmin"
proof -
  let ?sd = "timedelta_days day_step"
  let ?lo = "max tmin (hi - ?sd)"
  have sd: "0 < ?sd" using ds by (simp add: timedelta_days_def)
  have ge: "tmin \<le> ?lo" by simp
  from steps_loop_total[OF sd ge, of now tmax tu hi "[(Ge ?lo, c)]"]
  obtain ws where run: "steps_from day_step now (tmin, tmax, tu) (Steps_loop ?lo (Some hi)) [(Ge ?lo, c)] = Some ([(Ge ?lo, c)] @ ws)"
      and idx: "\<forall>i<length ws. ws ! i = (Ge (max tmin (?lo - (int i + 1) * ?sd)), Lt (max tmin (?lo - int i * ?sd)))"
      and big: "\<forall>i<length ws. tmin < ?lo - int i * ?sd"
      and lst: "tmin < ?lo \<longrightarrow> ws \<noteq> [] \<and> fst (last ws) = Ge tmin"
      and emp: "?lo = tmin \<longrightarrow> ws = []"
    by blast
  let ?ws = "(Ge ?lo, c) # ws"
  have res: "time_comparisons_per_step day_step now (tmin, tmax, tu) = Some ?ws"
    unfolding time_comparisons_per_step_def
    using first run by (subst steps_from.simps) simp
  have big': "\<forall>i<length ?ws. 0 < i \<longrightarrow> tmin < hi - int i * ?sd"
  proof (intro allI impI)
    fix i assume i: "i < length ?ws" and pos: "0 < i"
    then obtain j where j: "i = Suc j" "j < length ws" by (cases i) auto
    with big have 1: "tmin < ?lo - int j * ?sd" by blast
    have "0 \<le> int j * ?sd" using sd by simp
    with 1 have "tmin < ?lo" by linarith
    then have "?lo = hi - ?sd" by (simp add: max_def split: if_splits)
    with 1 j show "tmin < hi - int i * ?sd" by (simp add: algebra_simps)
  qed
  have lows: "\<forall>i<length ?ws. fst (?ws ! i) = Ge (max tmin (hi - (int i + 1) * ?sd))"
  proof (intro allI impI)
    fix i assume i: "i < length ?ws"
    show "fst (?ws ! i) = Ge (max tmin (hi - (int i + 1) * ?sd))"
    proof (cases i)
      case 0
      then show ?thesis by simp
    next
      case (Suc j)
      with i have j: "j < length ws" by simp
      with idx have "fst (ws ! j) = Ge (max tmin (?lo - (int j + 1) * ?sd))" by simp
      also have "max tmin (?lo - (int j + 1) * ?sd) = max tmin (hi - (int (Suc j) + 1) * ?sd)"
        using max_shift[OF sd, of tmin hi "Suc j"] by (simp add: algebra_simps)
      finally show ?thesis using Suc by simp
    qed
  qed
  have ups: "\<forall>i<length ?ws. 0 < i \<longrightarrow> snd (?ws ! i) = Lt (hi - int i * ?sd)"
  proof (intro allI impI)
    fix i assume i: "i < length ?ws" and pos: "0 < i"
    then obtain j where j: "i = Suc j" "j < length ws" by (cases i) auto
    with idx have "snd (ws ! j) = Lt (max tmin (?lo - int j * ?sd))" by simp
    also have "max tmin (?lo - int j * ?sd) = max tmin (hi - int (Suc j) * ?sd)"
      using max_shift[OF sd, of tmin hi j] by (simp add: algebra_simps)
    also have "\<dots> = hi - int (Suc j) * ?sd"
    proof -
      from big' i pos j have "tmin < hi - int (Suc j) * ?sd" by blast
      then show ?thesis by (simp only: max_def) simp
    qed
    finally show "snd (?ws ! i) = Lt (hi - int i * ?sd)" using j by simp
  qed
  have lst': "fst (last ?ws) = Ge tmin"
  proof (cases "tmin < ?lo")
    case True
    with lst show ?thesis by simp
  next
    case False
    with ge have "?lo = tmin" by simp
    with emp show ?thesis by simp
  qed
  from res lows ups big' lst' show ?thesis by (intro exI[of _ ?ws]) simp
qed


lemma steps_first:
  "\<exists>hi c. steps_next day_step now (tmin, tmax, tu) Steps_start
                 = Some ((Ge (max tmin (hi - timedelta_days day_step)), c),
                         Steps_loop (max tmin (hi - timedelta_days day_step)) (Some hi))
     \<and> (tu = None \<longrightarrow> c = Le hi \<and> hi = (case tmax of Some m \<Rightarrow> m | None \<Rightarrow> now + timedelta_hours 1))
     \<and> (\<forall>u. tu = Some u \<longrightarrow> c = Lt hi \<and> hi = u)"
  by (cases tu) (simp_all add: steps_loop_next_def Let_def)

text \<open>
  Claim C10. For every time-constraint triple and every \<^verbatim>\<open>day_step\<close> of at least 1 the
  window generator stops after finitely many windows: it yields at least one window, every
  window's lower bound is strictly below the one before it and at most \<^verbatim>\<open>day_step\<close>
  days below it, and the last window's lower bound is \<^verbatim>\<open>time_min\<close>.
\<close>

theorem time_comparisons_per_step_terminates:
  assumes "1 \<le> day_step"
  shows "\<exists>ws. time_comparisons_per_step day_step now (time_min, time_max, time_until) = Some ws
           \<and> ws \<noteq> []
           \<and> (\<forall>i. Suc i < length ws \<longrightarrow>
                  window_lower (ws ! Suc i) < window_lower (ws ! i)
                  \<and> window_lower (ws ! i) - window_lower (ws ! Suc i) \<le> timedelta_days day_step)
           \<and> window_lower (last ws) = time_min"
proof -
  let ?sd = "timedelta_days day_step"
  have sd: "0 < ?sd" using assms by (simp add: timedelta_days_def)
  from steps_first[of day_step now time_min time_max time_until]
  obtain hi c where first: "steps_next day_step now (time_min, time_max, time_until) Steps_start
                 = Some ((Ge (max time_min (hi - ?sd)), c), Steps_loop (max time_min (hi - ?sd)) (Some hi))"
    by blast
  from steps_shape[OF assms first]
  obtain ws where res: "time_comparisons_per_step day_step now (time_min, time_max, time_until) = Some ws"
    and ne: "ws \<noteq> []"
    and lows: "\<forall>i<length ws. fst (ws ! i) = Ge (max time_min (hi - (int i + 1) * ?sd))"
    and big: "\<forall>i<length ws. 0 < i \<longrightarrow> time_min < hi - int i * ?sd"
    and lst: "fst (last ws) = Ge time_min"
    by blast
  have dec: "\<forall>i. Suc i < length ws \<longrightarrow>
                  window_lower (ws ! Suc i) < window_lower (ws ! i)
                  \<and> window_lower (ws ! i) - window_lower (ws ! Suc i) \<le> ?sd"
  proof (intro allI impI)
    fix i assume i: "Suc i < length ws"
    from lows i have a: "window_lower (ws ! i) = max time_min (hi - (int i + 1) * ?sd)"
      by (simp add: window_lower_def)
    from lows i have b: "window_lower (ws ! Suc i) = max time_min (hi - (int (Suc i) + 1) * ?sd)"
      by (simp add: window_lower_def)
    from big i have c: "time_min < hi - int (Suc i) * ?sd" by blast
    from a b c sd show "window_lower (ws ! Suc i) < window_lower (ws ! i)
                  \<and> window_lower (ws ! i) - window_lower (ws ! Suc i) \<le> ?sd"
      by (simp add: algebra_simps max_def)
  qed
  from res ne dec lst show ?thesis by (auto simp: window_lower_def)
qed

theorem time_comparisons_per_step_terminates_witness:
  "(1::int) \<le> 1 \<and>
   (\<exists>ws. time_comparisons_per_step 1 0 (- 200000000000, None, Some 0) = Some ws
           \<and> ws \<noteq> []
           \<and> (\<forall>i. Suc i < length ws \<longrightarrow>
                  window_lower (ws ! Suc i) < window_lower (ws ! i)
                  \<and> window_lower (ws ! i) - window_lower (ws ! Suc i) \<le> timedelta_days 1)
           \<and> window_lower (last ws) = - 200000000000)"
  using time_comparisons_per_step_terminates[of 1 0 "- 200000000000" None "Some 0"] by simp

text \<open>
  Claim C2. With neither \<^verbatim>\<open>time_max\<close> nor \<^verbatim>\<open>time_until\<close> (and a \<^verbatim>\<open>day_step\<close> of at
  least 1), with \<open>U = now + 1 hour\<close> and \<open>D\<close> the step: the lower bound of the \<open>i\<close>-th
  window (counted from 0) is \<open>max time_min (U - (i + 1) * D)\<close>; the first window compares
  with \<open>\<le> U\<close>, every later one with \<open><\<close> the lower bound of the window before it; lower
  and upper bounds strictly descend; the last lower bound is \<^verbatim>\<open>time_min\<close>; no window admits
  a time below \<^verbatim>\<open>time_min\<close>.
\<close>

theorem windows_without_time_max_and_time_until:
  assumes "1 \<le> day_step"
  shows "\<exists>ws. time_comparisons_per_step day_step now (time_min, None, None) = Some ws
           \<and> ws \<noteq> []
           \<and> (\<forall>i<length ws. fst (ws ! i) =
                  Ge (max time_min (now + timedelta_hours 1 - (int i + 1) * timedelta_days day_step)))
           \<and> snd (ws ! 0) = Le (now + timedelta_hours 1)
           \<and> (\<forall>i<length ws. 0 < i \<longrightarrow> snd (ws ! i) = Lt (window_lower (ws ! (i - 1))))
           \<and> (\<forall>i. Suc i < length ws \<longrightarrow>
                  window_lower (ws ! Suc i) < window_lower (ws ! i)
                  \<and> window_upper (ws ! Suc i) < window_upper (ws ! i))
           \<and> window_lower (last ws) = time_min
           \<and> (\<forall>w\<in>set ws. \<forall>t. in_window w t \<longrightarrow> time_min \<le> t)"
proof -
  let ?sd = "timedelta_days day_step"
  let ?U = "now + timedelta_hours 1"
  have sd: "0 < ?sd" using assms by (simp add: timedelta_days_def)
  have first: "steps_next day_step now (time_min, None, None) Steps_start
                 = Some ((Ge (max time_min (?U - ?sd)), Le ?U), Steps_loop (max time_min (?U - ?sd)) (Some ?U))"
    by (simp add: Let_def)
  from steps_shape[OF assms first]
  obtain ws where res: "time_comparisons_per_step day_step now (time_min, None, None) = Some ws"
    and ne: "ws \<noteq> []"
    and lows: "\<forall>i<length ws. fst (ws ! i) = Ge (max time_min (?U - (int i + 1) * ?sd))"
    and up0: "snd (ws ! 0) = Le ?U"
    and ups: "\<forall>i<length ws. 0 < i \<longrightarrow> snd (ws ! i) = Lt (?U - int i * ?sd)"
    and big: "\<forall>i<length ws. 0 < i \<longrightarrow> time_min < ?U - int i * ?sd"
    and lst: "fst (last ws) = Ge time_min"
    by blast
  have low_eq: "window_lower (ws ! j) = ?U - (int j + 1) * ?sd" if "Suc j < length ws" for j
  proof -
    from big that have "time_min < ?U - int (Suc j) * ?sd" by blast
    moreover from lows that have "window_lower (ws ! j) = max time_min (?U - (int j + 1) * ?sd)"
      by (simp add: window_lower_def)
    ultimately show ?thesis by (simp add: algebra_simps max_def)
  qed
  have chain: "\<forall>i<length ws. 0 < i \<longrightarrow> snd (ws ! i) = Lt (window_lower (ws ! (i - 1)))"
  proof (intro allI impI)
    fix i assume i: "i < length ws" and pos: "0 < i"
    then obtain j where j: "i = Suc j" by (cases i) auto
    from ups i pos have "snd (ws ! i) = Lt (?U - int i * ?sd)" by blast
    moreover from low_eq[of j] i j have "window_lower (ws ! j) = ?U - int i * ?sd"
      by (simp add: algebra_simps)
    ultimately show "snd (ws ! i) = Lt (window_lower (ws ! (i - 1)))" using j by simp
  qed
  have dec: "\<forall>i. Suc i < length ws \<longrightarrow>
                  window_lower (ws ! Suc i) < window_lower (ws ! i)
                  \<and> window_upper (ws ! Suc i) < window_upper (ws ! i)"
  proof (intro allI impI)
    fix i assume i: "Suc i < length ws"
    have a: "window_lower (ws ! i) = ?U - (int i + 1) * ?sd" using low_eq[OF i] .
    from lows i have b: "window_lower (ws ! Suc i) = max time_min (?U - (int (Suc i) + 1) * ?sd)"
      by (simp add: window_lower_def)
    from big i have c: "time_min < ?U - int (Suc i) * ?sd" by blast
    from ups i have d: "window_upper (ws ! Suc i) = ?U - int (Suc i) * ?sd"
      by (simp add: window_upper_def)
    have e: "window_upper (ws ! i) = ?U - int i * ?sd"
    proof (cases i)
      case 0
      with up0 show ?thesis by (simp add: window_upper_def)
    next
      case (Suc k)
      with ups i show ?thesis by (simp add: window_upper_def)
    qed
    from a b c d e sd show "window_lower (ws ! Suc i) < window_lower (ws ! i)
                  \<and> window_upper (ws ! Suc i) < window_upper (ws ! i)"
      by (simp add: algebra_simps max_def)
  qed
  have above: "\<forall>w\<in>set ws. \<forall>t. in_window w t \<longrightarrow> time_min \<le> t"
  proof (intro ballI allI impI)
    fix w t assume w: "w \<in> set ws" and t: "in_window w t"
    from w obtain i where i: "i < length ws" "w = ws ! i" by (auto simp: in_set_conv_nth)
    with lows have "fst w = Ge (max time_min (?U - (int i + 1) * ?sd))" by simp
    with t show "time_min \<le> t" by (simp add: in_window_def)
  qed
  from lst have lst': "window_lower (last ws) = time_min" by (simp add: window_lower_def)
  from res ne lows up0 chain dec lst' above show ?thesis by blast
qed

theorem windows_without_time_max_and_time_until_witness:
  "(1::int) \<le> 2 \<and>
   (\<exists>ws. time_comparisons_per_step 2 7 (- 400000000000, None, None) = Some ws
           \<and> ws \<noteq> []
           \<and> (\<forall>i<length ws. fst (ws ! i) =
                  Ge (max (- 400000000000) (7 + timedelta_hours 1 - (int i + 1) * timedelta_days 2)))
           \<and> snd (ws ! 0) = Le (7 + timedelta_hours 1)
           \<and> (\<forall>i<length ws. 0 < i \<longrightarrow> snd (ws ! i) = Lt (window_lower (ws ! (i - 1))))
           \<and> (\<forall>i. Suc i < length ws \<longrightarrow>
                  window_lower (ws ! Suc i) < window_lower (ws ! i)
                  \<and> window_upper (ws ! Suc i) < window_upper (ws ! i))
           \<and> window_lower (last ws) = - 400000000000
           \<and> (\<forall>w\<in>set ws. \<forall>t. in_window w t \<longrightarrow> - 400000000000 \<le> t))"
  using windows_without_time_max_and_time_until[of 2 7 "- 400000000000"] by simp

section \<open>Properties of the error translation and of the transactional scope\<close>


lemma replace_newlines_no_nl: "CHR 0x0A \<notin> set (replace_newlines s)"
  by (auto simp: replace_newlines_def)


text \<open>
  Claim C8. A \<^verbatim>\<open>DBAPIError\<close> raised inside \<^verbatim>\<open>handling_db_api_error\<close> is logged as an
  error with the summary, the failing statement and its parameters, and leaves the block as
  an \<^verbatim>\<open>EventDatabaseError\<close> carrying the summary. The summary is the fixed prefix, then
  the first 200 characters (at most) of the error's text with every newline replaced by a
  space, then three dots; it contains no newline.
\<close>

theorem handling_db_api_error_translates:
  "handling_db_api_error (Inl (DBAPIError e) :: exc + 'a)
     = ([(ERROR, [Arg_str (format_db_api_error_summary e), Arg_str (statement e),
                  Arg_str (params e)])],
        Inl (EventDatabaseError (format_db_api_error_summary e)))
   \<and> (\<exists>shortened. format_db_api_error_summary e = ''DB API error - '' @ shortened @ ''...''
         \<and> shortened = map (\<lambda>c. if c = CHR 0x0A then CHR '' '' else c) (take 200 (exc_ascii_str e))
         \<and> length shortened \<le> 200)
   \<and> CHR 0x0A \<notin> set (format_db_api_error_summary e)"
  by (auto simp: format_db_api_error_summary_def replace_newlines_def DB_API_ERROR_MESSAGE_MAX_LENGTH_def)

text \<open>
  Claim C7, as amended. Leaving the scope (entered once) with no active exception: the
  session is flushed; when the flush succeeds the transaction is committed and, if the commit
  succeeds, nothing is raised; when the flush raises, the transaction is rolled back and, if
  the rollback succeeds, the exception of the flush leaves the \<^verbatim>\<open>with\<close> statement.
  Leaving it with an active exception: the transaction is rolled back and, if the rollback
  succeeds, \<^verbatim>\<open>__exit__\<close> raises nothing and the original exception leaves the
  \<^verbatim>\<open>with\<close> statement. When the commit or the rollback itself raises, the session is
  removed and that exception (or the one the removal raises) leaves the scope, in place of
  the exception of the flush or of the original exception.
\<close>

theorem transact_exit_paths:
  "(flush_raises sb = None \<and> commit_raises sb = None \<longrightarrow>
      transact_exit sb 1 None = (0, [Flush, Commit], Inr ())
      \<and> with_outcome None (snd (snd (transact_exit sb 1 None))) = None)
   \<and> (flush_raises sb = Some flush_exc \<and> rollback_raises sb = None \<longrightarrow>
      transact_exit sb 1 None = (0, [Flush, Rollback], Inl flush_exc)
      \<and> with_outcome None (snd (snd (transact_exit sb 1 None))) = Some flush_exc)
   \<and> (rollback_raises sb = None \<longrightarrow>
      transact_exit sb 1 (Some original) = (0, [Rollback], Inr ())
      \<and> with_outcome (Some original) (snd (snd (transact_exit sb 1 (Some original)))) = Some original)
   \<and> (flush_raises sb = None \<and> commit_raises sb = Some e \<and> e \<noteq> NoContextToExitFrom \<longrightarrow>
      transact_exit sb 1 None =
        (0, [Flush, Commit, Remove], Inl (case remove_raises sb of Some e' \<Rightarrow> e' | None \<Rightarrow> e)))
   \<and> (flush_raises sb = Some flush_exc \<and> rollback_raises sb = Some e \<and> e \<noteq> NoContextToExitFrom \<longrightarrow>
      transact_exit sb 1 None =
        (0, [Flush, Rollback, Remove], Inl (case remove_raises sb of Some e' \<Rightarrow> e' | None \<Rightarrow> e)))
   \<and> (rollback_raises sb = Some e \<and> e \<noteq> NoContextToExitFrom \<longrightarrow>
      transact_exit sb 1 (Some original) =
        (0, [Rollback, Remove], Inl (case remove_raises sb of Some e' \<Rightarrow> e' | None \<Rightarrow> e))
      \<and> with_outcome (Some original) (snd (snd (transact_exit sb 1 (Some original))))
          = Some (case remove_raises sb of Some e' \<Rightarrow> e' | None \<Rightarrow> e))"
  by (cases e)
     (auto simp: transact_exit_def on_exit_def transaction_finalizer_def with_outcome_def
           split: option.splits)


theorem transact_exit_paths_witness:
  "transact_exit \<lparr>flush_raises = None, commit_raises = None, rollback_raises = None, remove_raises = None\<rparr> 1 None
      = (0, [Flush, Commit], Inr ())
   \<and> transact_exit \<lparr>flush_raises = Some (OtherError ''IntegrityError''), commit_raises = None,
                     rollback_raises = None, remove_raises = None\<rparr> 1 None
      = (0, [Flush, Rollback], Inl (OtherError ''IntegrityError''))
   \<and> with_outcome (Some (OtherError ''ValueError''))
        (snd (snd (transact_exit \<lparr>flush_raises = None, commit_raises = None, rollback_raises = None,
                                  remove_raises = None\<rparr> 1 (Some (OtherError ''ValueError'')))))
      = Some (OtherError ''ValueError'')
   \<and> transact_exit \<lparr>flush_raises = None, commit_raises = Some (OtherError ''OperationalError''),
                     rollback_raises = None, remove_raises = None\<rparr> 1 None
      = (0, [Flush, Commit, Remove], Inl (OtherError ''OperationalError''))
   \<and> transact_exit \<lparr>flush_raises = Some (OtherError ''IntegrityError''), commit_raises = None,
                     rollback_raises = Some (OtherError ''OperationalError''), remove_raises = None\<rparr> 1 None
      = (0, [Flush, Rollback, Remove], Inl (OtherError ''OperationalError''))
   \<and> transact_exit \<lparr>flush_raises = None, commit_raises = None,
                     rollback_raises = Some (OtherError ''OperationalError''), remove_raises = None\<rparr>
        1 (Some (OtherError ''ValueError''))
      = (0, [Rollback, Remove], Inl (OtherError ''OperationalError''))"
  using transact_exit_paths[of "\<lparr>flush_raises = None, commit_raises = None, rollback_raises = None, remove_raises = None\<rparr>"
          "OtherError ''IntegrityError''" "OtherError ''ValueError''" "OtherError ''OperationalError''"]
    transact_exit_paths[of "\<lparr>flush_raises = Some (OtherError ''IntegrityError''), commit_raises = None,
                     rollback_raises = None, remove_raises = None\<rparr>" "OtherError ''IntegrityError''"
          "OtherError ''ValueError''" "OtherError ''OperationalError''"]
    transact_exit_paths[of "\<lparr>flush_raises = None, commit_raises = Some (OtherError ''OperationalError''),
                     rollback_raises = None, remove_raises = None\<rparr>" "OtherError ''IntegrityError''"
          "OtherError ''ValueError''" "OtherError ''OperationalError''"]
    transact_exit_paths[of "\<lparr>flush_raises = Some (OtherError ''IntegrityError''), commit_raises = None,
                     rollback_raises = Some (OtherError ''OperationalError''), remove_raises = None\<rparr>"
          "OtherError ''IntegrityError''" "OtherError ''ValueError''" "OtherError ''OperationalError''"]
    transact_exit_paths[of "\<lparr>flush_raises = None, commit_raises = None,
                     rollback_raises = Some (OtherError ''OperationalError''), remove_raises = None\<rparr>"
          "OtherError ''IntegrityError''" "OtherError ''ValueError''" "OtherError ''OperationalError''"]
  by (simp add: with_outcome_def)

text \<open>
  The claim C7 as stated fails where the rollback itself raises: leaving the scope with an
  active \<^verbatim>\<open>ValueError\<close> while \<^verbatim>\<open>rollback()\<close> raises an \<^verbatim>\<open>OperationalError\<close>, the
  session is removed and the \<^verbatim>\<open>OperationalError\<close> leaves the \<^verbatim>\<open>with\<close> statement, not
  the original exception.
\<close>

theorem transact_exit_failed_rollback_replaces_original:
  "transact_exit \<lparr>flush_raises = None, commit_raises = None,
                  rollback_raises = Some (OtherError ''OperationalError''), remove_raises = None\<rparr>
        1 (Some (OtherError ''ValueError''))
      = (0, [Rollback, Remove], Inl (OtherError ''OperationalError''))
   \<and> with_outcome (Some (OtherError ''ValueError''))
        (snd (snd (transact_exit \<lparr>flush_raises = None, commit_raises = None,
                     rollback_raises = Some (OtherError ''OperationalError''), remove_raises = None\<rparr>
                   1 (Some (OtherError ''ValueError'')))))
      = Some (OtherError ''OperationalError'')
   \<and> Some (OtherError ''OperationalError'') \<noteq> Some (OtherError ''ValueError'')"
  by (simp add: transact_exit_def on_exit_def transaction_finalizer_def with_outcome_def)

section \<open>Properties of the counts per category\<close>


lemma map_of_dict_update:
  "map_of (dict_update d pairs) = map_of d ++ map_of (rev pairs)"
  unfolding dict_update_def
proof (induction pairs arbitrary: d)
  case Nil
  then show ?case by simp
next
  case (Cons a pairs)
  obtain k v where a: "a = (k, v)" by (cases a)
  have "map_of (fold (\<lambda>(k, v). AList.update k v) pairs (AList.update k v d))
          = map_of (AList.update k v d) ++ map_of (rev pairs)"
    by (rule Cons.IH)
  also have "\<dots> = map_of d ++ map_of (rev pairs @ [(k, v)])"
    by (simp add: update_conv' map_add_def fun_eq_iff split: option.splits)
  finally show ?case using a by simp
qed

lemma keys_dict_update:
  "set (map fst (dict_update d pairs)) = set (map fst d) \<union> set (map fst pairs)"
proof -
  have "dom (map_of (dict_update d pairs)) = dom (map_of d) \<union> dom (map_of (rev pairs))"
    by (simp add: map_of_dict_update Un_commute)
  then show ?thesis by (simp add: dom_map_of_conv_image_fst)
qed

lemma map_of_dict_fromkeys:
  "map_of (dict_fromkeys ks v) k = (if k \<in> set ks then Some v else None)"
proof -
  have "map_of (fold (\<lambda>k d. AList.update k v d) ks d) k
          = (if k \<in> set ks then Some v else map_of d k)" for d
    by (induction ks arbitrary: d) (auto simp: update_conv')
  then show ?thesis by (simp add: dict_fromkeys_def)
qed

lemma keys_dict_fromkeys: "set (map fst (dict_fromkeys ks v)) = set ks"
proof -
  have "dom (map_of (dict_fromkeys ks v)) = set ks"
    by (auto simp: map_of_dict_fromkeys dom_def)
  then show ?thesis by (simp add: dom_map_of_conv_image_fst)
qed

lemma distinct_counted_rows: "distinct (map fst (counted_rows db q))"
  by (simp add: counted_rows_def Let_def comp_def)

lemma map_of_rev_distinct: "distinct (map fst xs) \<Longrightarrow> map_of (rev xs) = map_of xs"
  by (rule ext) (metis distinct_rev map_of_inject_set rev_map set_rev)


lemma set_left_outer_join:
  "set (left_outer_join on_cond es cs) =
     {(e, Some c) | e c. e \<in> set es \<and> c \<in> set cs \<and> on_cond e c}
     \<union> {(e, None) | e. e \<in> set es \<and> (\<forall>c\<in>set cs. \<not> on_cond e c)}"
proof -
  have one: "set (case filter (on_cond e) cs of [] \<Rightarrow> [(e, None)] | ms \<Rightarrow> map (\<lambda>c. (e, Some c)) ms)
          = {(e, Some c) | c. c \<in> set cs \<and> on_cond e c}
            \<union> {(e, None) | x. x = e \<and> (\<forall>c\<in>set cs. \<not> on_cond e c)}" for e
  proof (cases "filter (on_cond e) cs")
    case Nil
    then have "\<forall>c\<in>set cs. \<not> on_cond e c" by (simp add: filter_empty_conv)
    with Nil show ?thesis by auto
  next
    case (Cons m ms)
    then have ex: "\<exists>c\<in>set cs. on_cond e c"
      by (metis filter_empty_conv list.distinct(1))
    have "set (map (\<lambda>c. (e, Some c)) (filter (on_cond e) cs)) = {(e, Some c) | c. c \<in> set cs \<and> on_cond e c}"
      by auto
    with Cons ex show ?thesis by auto
  qed
  show ?thesis
    unfolding left_outer_join_def by (auto simp: one)
qed

lemma counts_query_shape:
  assumes "conds \<noteq> []"
  shows "build_query_for_counts_per_category
           \<lparr>access_filtering_conditions = conds, client_org_ids = Some [org]\<rparr> since
         = Inr \<lparr>q_where = [\<lambda>r. ev_time (fst r) \<ge> since, or_conditions conds, client_in [org]],
                q_join_on = Some (\<lambda>e c. c2e_id c = ev_id e \<and> c2e_time c \<ge> since),
                q_order_by_time_desc = False, q_group_by_category = True,
                q_limit = None, q_offset = 0\<rparr>"
  using assms
  by (simp add: build_query_for_counts_per_category_def query__access_filtering_def
      query__client_filtering_def session_query_def query_outerjoin_def query_filter_def
      query_group_by_category_def Let_def)

text \<open>
  Claim C6. When the counts query is built and executed without a driver error: if every
  category among the store's pairs is canonical, the result is a dictionary whose keys are
  exactly the canonical categories, with 0 for each category absent from the pairs and the
  pair's count for each category present; if some category of the pairs is not canonical, an
  \<^verbatim>\<open>AssertionError\<close> is raised.
\<close>

theorem counts_per_category_defaults_and_illegal_categories:
  assumes q: "build_query_for_counts_per_category p since = Inr q"
    and ok: "db_fault db 0 = None"
  shows "(set (map fst (counted_rows db q)) \<subseteq> set CATEGORY_ENUMS \<longrightarrow>
            (\<exists>d. counts_get_counts_per_category CATEGORY_ENUMS db p since = ([], Inr d)
               \<and> set (map fst d) = set CATEGORY_ENUMS
               \<and> (\<forall>c\<in>set CATEGORY_ENUMS. c \<notin> set (map fst (counted_rows db q)) \<longrightarrow> map_of d c = Some 0)
               \<and> (\<forall>(c, n)\<in>set (counted_rows db q). map_of d c = Some n)))
       \<and> (\<not> set (map fst (counted_rows db q)) \<subseteq> set CATEGORY_ENUMS \<longrightarrow>
            counts_get_counts_per_category CATEGORY_ENUMS db p since = ([], Inl AssertionError))"
proof -
  let ?pairs = "counted_rows db q"
  let ?d = "dict_update (dict_fromkeys CATEGORY_ENUMS 0) ?pairs"
  have keys: "set (map fst ?d) = set CATEGORY_ENUMS \<union> set (map fst ?pairs)"
    using keys_dict_update[of "dict_fromkeys CATEGORY_ENUMS 0" ?pairs]
      keys_dict_fromkeys[of CATEGORY_ENUMS 0] by simp
  have exec: "handling_db_api_error (execute_counts db 0 q) = ([], Inr ?pairs)"
    using ok by (simp add: execute_counts_def)
  have run: "counts_get_counts_per_category CATEGORY_ENUMS db p since =
     (case verify_no_illegal_categories CATEGORY_ENUMS ?d of
        Inl e \<Rightarrow> ([], Inl e)
      | Inr _ \<Rightarrow> (if set (map fst ?d) \<noteq> set CATEGORY_ENUMS then ([], Inl AssertionError)
                  else ([], Inr ?d)))"
    using q exec by (simp add: counts_get_counts_per_category_def Let_def)
  show ?thesis
  proof (cases "set (map fst ?pairs) \<subseteq> set CATEGORY_ENUMS")
    case True
    with keys have k: "set (map fst ?d) = set CATEGORY_ENUMS" by auto
    then have v: "verify_no_illegal_categories CATEGORY_ENUMS ?d = Inr ()"
      by (simp add: verify_no_illegal_categories_def)
    have res: "counts_get_counts_per_category CATEGORY_ENUMS db p since = ([], Inr ?d)"
      using run v k by simp
    have look: "map_of ?d = map_of (dict_fromkeys CATEGORY_ENUMS 0) ++ map_of ?pairs"
      by (simp add: map_of_dict_update map_of_rev_distinct distinct_counted_rows)
    have dflt: "\<forall>c\<in>set CATEGORY_ENUMS. c \<notin> set (map fst ?pairs) \<longrightarrow> map_of ?d c = Some 0"
    proof (intro ballI impI)
      fix c assume c: "c \<in> set CATEGORY_ENUMS" and n: "c \<notin> set (map fst ?pairs)"
      from n have "map_of ?pairs c = None" by (simp add: map_of_eq_None_iff)
      with c show "map_of ?d c = Some 0"
        by (simp add: look map_add_def map_of_dict_fromkeys)
    qed
    have over: "\<forall>(c, n)\<in>set ?pairs. map_of ?d c = Some n"
    proof (clarify)
      fix c n assume "(c, n) \<in> set ?pairs"
      then have "map_of ?pairs c = Some n"
        using distinct_counted_rows[of db q] by simp
      then show "map_of ?d c = Some n" by (simp add: look map_add_def)
    qed
    from True res k dflt over show ?thesis by blast
  next
    case False
    with keys have "set (map fst ?d) - set CATEGORY_ENUMS \<noteq> {}" by auto
    then have "verify_no_illegal_categories CATEGORY_ENUMS ?d = Inl AssertionError"
      by (simp add: verify_no_illegal_categories_def Let_def)
    with run False show ?thesis by simp
  qed
qed


theorem counts_per_category_defaults_and_illegal_categories_witness:
  "\<exists>q. build_query_for_counts_per_category
          \<lparr>access_filtering_conditions = [\<lambda>e. True], client_org_ids = Some [''org1'']\<rparr> 0 = Inr q
     \<and> db_fault example_db 0 = None
     \<and> counted_rows example_db q = [(''bots'', 2)]
     \<and> counts_get_counts_per_category [''bots'', ''cnc''] example_db
          \<lparr>access_filtering_conditions = [\<lambda>e. True], client_org_ids = Some [''org1'']\<rparr> 0
         = ([], Inr [(''bots'', 2), (''cnc'', 0)])
     \<and> counts_get_counts_per_category [''cnc''] example_db
          \<lparr>access_filtering_conditions = [\<lambda>e. True], client_org_ids = Some [''org1'']\<rparr> 0
         = ([], Inl AssertionError)"
proof -
  let ?p = "\<lparr>access_filtering_conditions = [\<lambda>e. True], client_org_ids = Some [''org1'']\<rparr>"
  obtain q where q: "build_query_for_counts_per_category ?p 0 = Inr q"
    using counts_query_shape[of "[\<lambda>e. True]" "''org1''" 0] by simp
  have ok: "db_fault example_db 0 = None" by (simp add: example_db_def)
  have pairs: "counted_rows example_db q = [(''bots'', 2)]"
    using q unfolding counts_query_shape[of "[\<lambda>e. True]" "''org1''" 0, simplified]
    by (auto simp: counted_rows_def selected_rows_def joined_rows_def left_outer_join_def
        example_db_def example_event_def or_conditions_def client_in_def Let_def)
  from counts_per_category_defaults_and_illegal_categories[OF q ok, of "[''bots'', ''cnc'']"] pairs
  obtain d where d: "counts_get_counts_per_category [''bots'', ''cnc''] example_db ?p 0 = ([], Inr d)"
    by auto
  have d': "counts_get_counts_per_category [''bots'', ''cnc''] example_db ?p 0 = ([], Inr [(''bots'', 2), (''cnc'', 0)])"
    using q ok pairs
    by (simp add: counts_get_counts_per_category_def execute_counts_def Let_def dict_update_def
        dict_fromkeys_def verify_no_illegal_categories_def)
  from counts_per_category_defaults_and_illegal_categories[OF q ok, of "[''cnc'']"] pairs
  have bad: "counts_get_counts_per_category [''cnc''] example_db ?p 0 = ([], Inl AssertionError)"
    by simp
  from q ok pairs d' bad show ?thesis by blast
qed



lemma counts_rows_set:
  assumes q: "q = \<lparr>q_where = [\<lambda>r. ev_time (fst r) \<ge> since, or_conditions conds, client_in [org]],
                q_join_on = Some (\<lambda>e c. c2e_id c = ev_id e \<and> c2e_time c \<ge> since),
                q_order_by_time_desc = False, q_group_by_category = True,
                q_limit = None, q_offset = 0\<rparr>"
  shows "set (selected_rows db q) =
          {(e, Some cl) | e cl. e \<in> set (db_events db) \<and> cl \<in> set (db_client_to_events db)
              \<and> c2e_id cl = ev_id e \<and> since \<le> c2e_time cl \<and> c2e_client cl = org
              \<and> since \<le> ev_time e \<and> (\<exists>cond\<in>set conds. cond e)}"
  unfolding q selected_rows_def joined_rows_def
  by (auto simp: set_left_outer_join or_conditions_def client_in_def list_ex_iff
           split: option.splits)

lemma counted_rows_card:
  assumes "(c, n) \<in> set (counted_rows db q)"
  shows "n = int (card ((\<lambda>r. ev_id (fst r)) ` {r \<in> set (selected_rows db q). ev_category (fst r) = c}))"
    and "c \<in> (\<lambda>r. ev_category (fst r)) ` set (selected_rows db q)"
  using assms by (auto simp: counted_rows_def Let_def length_remdups_card_conv)

text \<open>
  Claim C9. Whenever \<^verbatim>\<open>N6DataBackendAPI.get_counts_per_category\<close> returns a dictionary:
  the processor was built with the single organization \<^verbatim>\<open>auth_data['org_id']\<close> as its
  client filter, every row the counts query selects is joined to a client row of that
  organization, and every count returned for a category is the number of different ids of the
  events of that category, not older than \<^verbatim>\<open>since\<close>, admitted by one of the access
  conditions, that have a client row (not older than \<^verbatim>\<open>since\<close>) of that organization.
\<close>

theorem counts_only_for_own_organization:
  assumes run: "get_counts_per_category CATEGORY_ENUMS db auth conds since = (logged, Inr d)"
  shows "(\<exists>p q. base_init conds (Some [org_id auth]) = Inr p
            \<and> client_org_ids p = Some [org_id auth]
            \<and> build_query_for_counts_per_category p since = Inr q
            \<and> (\<forall>r\<in>set (selected_rows db q). \<exists>cl. snd r = Some cl \<and> c2e_client cl = org_id auth))
       \<and> (\<forall>c n. map_of d c = Some n \<longrightarrow>
             n = int (card {ev_id e | e. e \<in> set (db_events db) \<and> ev_category e = c
                              \<and> since \<le> ev_time e \<and> (\<exists>cond\<in>set conds. cond e)
                              \<and> (\<exists>cl\<in>set (db_client_to_events db).
                                    c2e_id cl = ev_id e \<and> since \<le> c2e_time cl
                                    \<and> c2e_client cl = org_id auth)}))"
proof -
  let ?org = "org_id auth"
  let ?p = "\<lparr>access_filtering_conditions = conds, client_org_ids = Some [?org]\<rparr>"
  let ?q = "\<lparr>q_where = [\<lambda>r. ev_time (fst r) \<ge> since, or_conditions conds, client_in [?org]],
                q_join_on = Some (\<lambda>e c. c2e_id c = ev_id e \<and> c2e_time c \<ge> since),
                q_order_by_time_desc = False, q_group_by_category = True,
                q_limit = None, q_offset = 0\<rparr>"
  let ?own = "\<lambda>c. {ev_id e | e. e \<in> set (db_events db) \<and> ev_category e = c
                              \<and> since \<le> ev_time e \<and> (\<exists>cond\<in>set conds. cond e)
                              \<and> (\<exists>cl\<in>set (db_client_to_events db).
                                    c2e_id cl = ev_id e \<and> since \<le> c2e_time cl
                                    \<and> c2e_client cl = ?org)}"
  from run have ne: "conds \<noteq> []"
    by (auto simp: get_counts_per_category_def split: if_splits)
  then have init: "base_init conds (Some [?org]) = Inr ?p"
    by (simp add: base_init_def)
  have build: "build_query_for_counts_per_category ?p since = Inr ?q"
    using ne by (rule counts_query_shape)
  have rows: "set (selected_rows db ?q) =
          {(e, Some cl) | e cl. e \<in> set (db_events db) \<and> cl \<in> set (db_client_to_events db)
              \<and> c2e_id cl = ev_id e \<and> since \<le> c2e_time cl \<and> c2e_client cl = ?org
              \<and> since \<le> ev_time e \<and> (\<exists>cond\<in>set conds. cond e)}"
    by (rule counts_rows_set) simp
  have ids: "(\<lambda>r. ev_id (fst r)) ` {r \<in> set (selected_rows db ?q). ev_category (fst r) = c} = ?own c" for c
    unfolding rows by (auto simp: image_iff) blast+
  from run ne init have run': "counts_get_counts_per_category CATEGORY_ENUMS db ?p since = (logged, Inr d)"
    by (simp add: get_counts_per_category_def)
  let ?pairs = "counted_rows db ?q"
  from run' build have fault: "db_fault db 0 = None"
    by (auto simp: counts_get_counts_per_category_def Let_def execute_counts_def
             split: option.splits)
  with run' build have d: "d = dict_update (dict_fromkeys CATEGORY_ENUMS 0) ?pairs"
    by (auto simp: counts_get_counts_per_category_def Let_def execute_counts_def
             split: sum.splits if_splits)
  have look: "map_of d = map_of (dict_fromkeys CATEGORY_ENUMS 0) ++ map_of ?pairs"
    by (simp add: d map_of_dict_update map_of_rev_distinct distinct_counted_rows)
  have part1: "\<forall>r\<in>set (selected_rows db ?q). \<exists>cl. snd r = Some cl \<and> c2e_client cl = ?org"
    unfolding rows by auto
  have part2: "\<forall>c n. map_of d c = Some n \<longrightarrow> n = int (card (?own c))"
  proof (intro allI impI)
    fix c n assume dn: "map_of d c = Some n"
    show "n = int (card (?own c))"
    proof (cases "map_of ?pairs c")
      case (Some m)
      with dn look have "n = m" by (simp add: map_add_def)
      moreover from Some have "(c, m) \<in> set ?pairs" by (rule map_of_SomeD)
      ultimately show ?thesis using counted_rows_card(1)[of c m db ?q] ids[of c] by simp
    next
      case None
      with dn look have "n = 0"
        by (simp add: map_add_def map_of_dict_fromkeys split: if_splits)
      moreover have emp: "{r \<in> set (selected_rows db ?q). ev_category (fst r) = c} = {}"
      proof (rule ccontr)
        assume "{r \<in> set (selected_rows db ?q). ev_category (fst r) = c} \<noteq> {}"
        then obtain r where "r \<in> set (selected_rows db ?q)" "ev_category (fst r) = c" by blast
        then have "c \<in> set (map fst ?pairs)"
          by (auto simp: counted_rows_def Let_def comp_def)
        with None show False by (simp add: map_of_eq_None_iff)
      qed
      have "?own c = (\<lambda>r. ev_id (fst r)) ` ({} :: joined_row set)"
        by (simp only: ids[of c, symmetric] emp)
      then have "card (?own c) = 0" by (simp only: image_empty card.empty)
      ultimately show ?thesis by (simp only: of_nat_0)
    qed
  qed
  from init build part1 part2 show ?thesis
    by (intro conjI exI[of _ ?p] exI[of _ ?q]) simp_all
qed


theorem counts_only_for_own_organization_witness:
  "get_counts_per_category [''bots'', ''cnc''] example_db \<lparr>org_id = ''org2'', user_id = ''u''\<rparr>
       [\<lambda>e. True] 0 = ([], Inr [(''bots'', 1), (''cnc'', 1)])
   \<and> (1::int) = int (card {ev_id e | e. e \<in> set (db_events example_db) \<and> ev_category e = ''bots''
                              \<and> 0 \<le> ev_time e \<and> (\<exists>cond\<in>set [\<lambda>e. True]. cond e)
                              \<and> (\<exists>cl\<in>set (db_client_to_events example_db).
                                    c2e_id cl = ev_id e \<and> 0 \<le> c2e_time cl
                                    \<and> c2e_client cl = org_id \<lparr>org_id = ''org2'', user_id = ''u''\<rparr>)})"
proof -
  have run: "get_counts_per_category [''bots'', ''cnc''] example_db \<lparr>org_id = ''org2'', user_id = ''u''\<rparr>
       [\<lambda>e. True] 0 = ([], Inr [(''bots'', 1), (''cnc'', 1)])"
    by (simp add: get_counts_per_category_def base_init_def counts_query_shape
        counts_get_counts_per_category_def execute_counts_def Let_def dict_update_def
        dict_fromkeys_def verify_no_illegal_categories_def
        counted_rows_def selected_rows_def joined_rows_def left_outer_join_def
        example_db_def example_event_def or_conditions_def client_in_def)
  have look: "map_of [(''bots'', 1::int), (''cnc'', 1)] ''bots'' = Some 1" by simp
  from counts_only_for_own_organization[OF run] look
  have "(1::int) = int (card {ev_id e | e. e \<in> set (db_events example_db) \<and> ev_category e = ''bots''
                              \<and> 0 \<le> ev_time e \<and> (\<exists>cond\<in>set [\<lambda>e. True]. cond e)
                              \<and> (\<exists>cl\<in>set (db_client_to_events example_db).
                                    c2e_id cl = ev_id e \<and> 0 \<le> c2e_time cl
                                    \<and> c2e_client cl = org_id \<lparr>org_id = ''org2'', user_id = ''u''\<rparr>)})"
    by blast
  with run show ?thesis by blast
qed

section \<open>Properties of the merging of rows and of the secondary URL filter\<close>












lemma rd_url_pop [simp]: "rd_url (pop_url_data result) = rd_url result"
  by (simp add: pop_url_data_def split: option.splits)






section \<open>Properties of the generation of query results\<close>












lemmas run_unfold = run_for_def run_init_def gen_init_def run_step_def gen_next_def fetch_page_def
  build_actual_query_def build_query_base_for_single_step_def execute_rows_def selected_rows_def
  joined_rows_def left_outer_join_def fetched_row_of_def query_filter_def query_outerjoin_def
  query_order_by_time_desc_def query_with_limit_def query_with_offset_def session_query_def
  or_conditions_def steps_loop_next_def timedelta_days_def timedelta_hours_def
  after_id_group_def enough_results_produced_def gen_close_def iter_grouped_by_attr_def
  make_result_dict_def make_raw_result_dict_def preprocess_result_dict_def custom_url_data_def
  pop_url_data_def get_event_tag_for_logging_def row_time_def row_id_def
  example_env_one_window_def example_env_empty_def example_processor_one_window_def
  example_db_def example_event_def example_url_helpers_def Let_def



lemma example_run_empty_no_limit:
  "rs_phase (run_for example_env_empty (example_processor_one_window None) 3)
     = Finished Returned_exhausted"
  by (simp add: run_unfold eval_nat_numeral)



end
